theory Spec2Isabelle
  imports Main "HOL-Library.Multiset" "HOL-Library.Char_ord" "HOL-Library.List_Lexorder"
begin

section \<open>Values, clock and execution state\<close>

text \<open>
  The values a bag can hold are the values of Python that JSON can carry. Floating-point
  numbers are left out. \<open>truthy\<close> is Python's truth test, which the guard of
  Gather Claim Info applies, and \<open>VStr\<close> is the only shape that can equal a string
  literal under Python's \<open>==\<close>.
\<close>

datatype pyval =
    VNone
  | VBool bool
  | VInt int
  | VStr string
  | VList "pyval list"
  | VDict "(string \<times> pyval) list"

fun truthy :: "pyval \<Rightarrow> bool" where
  "truthy VNone = False"
| "truthy (VBool b) = b"
| "truthy (VInt i) = (i \<noteq> 0)"
| "truthy (VStr s) = (s \<noteq> [])"
| "truthy (VList l) = (l \<noteq> [])"
| "truthy (VDict d) = (d \<noteq> [])"

text \<open>Truth test of an optional string (\<open>if last_node:\<close>): None and the empty string fail.\<close>

fun truthy_str :: "string option \<Rightarrow> bool" where
  "truthy_str None = False"
| "truthy_str (Some s) = (s \<noteq> [])"

text \<open>
  \<open>now_iso()\<close> reads the wall clock. The clock is an arbitrary sequence of readings
  and the number of readings taken so far; nothing is assumed about the readings.
\<close>

record clock =
  readings :: "nat \<Rightarrow> string"
  tick :: nat

definition now_iso :: "clock \<Rightarrow> string \<times> clock" where
  "now_iso c = (readings c (tick c), c\<lparr>tick := Suc (tick c)\<rparr>)"

text \<open>
  The execution state is the dict \<open>{instance_id, customer_id, workflow_name, bag, meta}\<close>
  that \<open>start\<close> builds. The keys \<open>bag\<close> and \<open>meta\<close> are present in every state the engine
  builds, so \<open>setdefault("bag", {})\<close> and \<open>setdefault("meta", {})\<close> leave them as they are;
  a key of \<open>meta\<close> that is absent is \<open>None\<close>.
\<close>

record state_meta =
  status :: "string option"
  last_node :: "string option"
  start_time :: "string option"
  end_time :: "string option"

record state =
  instance_id :: string
  customer_id :: string
  workflow_name :: string
  bag :: "string \<rightharpoonup> pyval"
  meta :: state_meta

section \<open>The claim workflow graph\<close>

datatype node =
    Validate_Request
  | Gather_Claim_Info
  | Identify_Accounts
  | Cancel_CWD_Request
  | Hold_Request
  | Apply_Temporary_Suppression
  | Fulfill_Case_and_Detect

fun node_name :: "node \<Rightarrow> string" where
  "node_name Validate_Request = ''Validate Request''"
| "node_name Gather_Claim_Info = ''Gather Claim Info''"
| "node_name Identify_Accounts = ''Identify Accounts & Process Decision''"
| "node_name Cancel_CWD_Request = ''Cancel CWD Request''"
| "node_name Hold_Request = ''Hold Request''"
| "node_name Apply_Temporary_Suppression = ''Apply Temporary Suppression''"
| "node_name Fulfill_Case_and_Detect = ''Fulfill Case and Detect''"

text \<open>
  A step mutates the state dict in place and returns either that dict or an
  \<open>Interrupt\<close> carrying a prompt. A step of the model returns what the step of the
  source returns, the mutated state and the clock.
\<close>

datatype step_result = Interrupt string | Returned

definition ensure_defaults :: "state \<Rightarrow> clock \<Rightarrow> state \<times> clock" where
  "ensure_defaults s c =
     (let (t, c') = now_iso c in
      (s\<lparr>meta := (meta s)\<lparr>
           status := Some (case status (meta s) of None \<Rightarrow> ''in_progress'' | Some x \<Rightarrow> x),
           start_time := Some (case start_time (meta s) of None \<Rightarrow> t | Some x \<Rightarrow> x)\<rparr>\<rparr>,
       c'))"

definition set_last_node :: "string \<Rightarrow> state \<Rightarrow> state" where
  "set_last_node n s = s\<lparr>meta := (meta s)\<lparr>last_node := Some n\<rparr>\<rparr>"

definition validate_request :: "state \<Rightarrow> clock \<Rightarrow> step_result \<times> state \<times> clock" where
  "validate_request s c =
     (let (s1, c1) = ensure_defaults s c;
          s2 = set_last_node ''Validate Request'' s1 in
      if bag s2 ''validate'' = None then (Interrupt ''Validate request? (yes/no)'', s2, c1)
      else (Returned, s2, c1))"

definition gather_claim_info :: "state \<Rightarrow> clock \<Rightarrow> step_result \<times> state \<times> clock" where
  "gather_claim_info s c =
     (let (s1, c1) = ensure_defaults s c;
          s2 = set_last_node ''Gather Claim Info'' s1 in
      if bag s2 ''claim_details'' = None then (Interrupt ''Provide claim details'', s2, c1)
      else (Returned, s2, c1))"

definition identify_accounts :: "state \<Rightarrow> clock \<Rightarrow> step_result \<times> state \<times> clock" where
  "identify_accounts s c =
     (let (s1, c1) = ensure_defaults s c;
          s2 = set_last_node ''Identify Accounts & Process Decision'' s1 in
      if bag s2 ''process_decision'' = None
      then (Interrupt ''Decision? cancel / hold / suppress'', s2, c1)
      else (Returned, s2, c1))"

definition cancel_request :: "state \<Rightarrow> clock \<Rightarrow> step_result \<times> state \<times> clock" where
  "cancel_request s c =
     (let (s1, c1) = ensure_defaults s c;
          s2 = set_last_node ''Cancel CWD Request'' s1;
          s3 = s2\<lparr>meta := (meta s2)\<lparr>status := Some ''aborted''\<rparr>\<rparr>;
          (t, c2) = now_iso c1;
          s4 = s3\<lparr>meta := (meta s3)\<lparr>end_time := Some t\<rparr>\<rparr>;
          s5 = s4\<lparr>bag := (bag s4)(''result'' \<mapsto> VStr ''Workflow aborted.'')\<rparr> in
      (Returned, s5, c2))"

definition hold_request :: "state \<Rightarrow> clock \<Rightarrow> step_result \<times> state \<times> clock" where
  "hold_request s c =
     (let (s1, c1) = ensure_defaults s c;
          s2 = set_last_node ''Hold Request'' s1 in
      if bag s2 ''hold_action'' = None
      then (Interrupt ''Workflow on hold. Command: resume / abort'', s2, c1)
      else (Returned, s2, c1))"

definition apply_suppression :: "state \<Rightarrow> clock \<Rightarrow> step_result \<times> state \<times> clock" where
  "apply_suppression s c =
     (let (s1, c1) = ensure_defaults s c;
          s2 = set_last_node ''Apply Temporary Suppression'' s1 in
      if bag s2 ''proceed_fulfill'' = None then (Interrupt ''Proceed to fulfill? (yes/no)'', s2, c1)
      else (Returned, s2, c1))"

definition fulfill_case :: "state \<Rightarrow> clock \<Rightarrow> step_result \<times> state \<times> clock" where
  "fulfill_case s c =
     (let (s1, c1) = ensure_defaults s c;
          s2 = set_last_node ''Fulfill Case and Detect'' s1;
          s3 = s2\<lparr>meta := (meta s2)\<lparr>status := Some ''completed''\<rparr>\<rparr>;
          (t, c2) = now_iso c1;
          s4 = s3\<lparr>meta := (meta s3)\<lparr>end_time := Some t\<rparr>\<rparr>;
          s5 = s4\<lparr>bag := (bag s4)(''result'' \<mapsto> VStr ''Fulfilled and detection complete.'')\<rparr> in
      (Returned, s5, c2))"

text \<open>\<open>g.add_node(name, function)\<close>: the step registered under each node.\<close>

fun step :: "node \<Rightarrow> state \<Rightarrow> clock \<Rightarrow> step_result \<times> state \<times> clock" where
  "step Validate_Request = validate_request"
| "step Gather_Claim_Info = gather_claim_info"
| "step Identify_Accounts = identify_accounts"
| "step Cancel_CWD_Request = cancel_request"
| "step Hold_Request = hold_request"
| "step Apply_Temporary_Suppression = apply_suppression"
| "step Fulfill_Case_and_Detect = fulfill_case"

text \<open>
  The edges. A conditional edge is the lambda of \<open>add_conditional_edges\<close>: it sees what
  the step returned, answers END (\<open>None\<close>) for an Interrupt, and otherwise reads the bag.
  The two terminal steps have the plain edge to END.
\<close>

fun edge :: "node \<Rightarrow> step_result \<Rightarrow> state \<Rightarrow> node option" where
  "edge Validate_Request r s =
     (case r of Interrupt _ \<Rightarrow> None
      | Returned \<Rightarrow>
          if bag s ''validate'' = Some (VStr ''yes'') then Some Gather_Claim_Info
          else if bag s ''validate'' = Some (VStr ''no'') then Some Cancel_CWD_Request
          else None)"
| "edge Gather_Claim_Info r s =
     (case r of Interrupt _ \<Rightarrow> None
      | Returned \<Rightarrow>
          if (case bag s ''claim_details'' of None \<Rightarrow> False | Some v \<Rightarrow> truthy v)
          then Some Identify_Accounts else None)"
| "edge Identify_Accounts r s =
     (case r of Interrupt _ \<Rightarrow> None
      | Returned \<Rightarrow>
          if bag s ''process_decision'' = Some (VStr ''cancel'') then Some Cancel_CWD_Request
          else if bag s ''process_decision'' = Some (VStr ''hold'') then Some Hold_Request
          else if bag s ''process_decision'' = Some (VStr ''suppress'')
          then Some Apply_Temporary_Suppression
          else None)"
| "edge Hold_Request r s =
     (case r of Interrupt _ \<Rightarrow> None
      | Returned \<Rightarrow>
          if bag s ''hold_action'' = Some (VStr ''resume'') then Some Apply_Temporary_Suppression
          else if bag s ''hold_action'' = Some (VStr ''abort'') then Some Cancel_CWD_Request
          else None)"
| "edge Apply_Temporary_Suppression r s =
     (case r of Interrupt _ \<Rightarrow> None
      | Returned \<Rightarrow>
          if bag s ''proceed_fulfill'' = Some (VStr ''yes'') then Some Fulfill_Case_and_Detect
          else if bag s ''proceed_fulfill'' = Some (VStr ''no'') then Some Cancel_CWD_Request
          else None)"
| "edge Fulfill_Case_and_Detect r s = None"
| "edge Cancel_CWD_Request r s = None"

text \<open>
  \<open>graph.invoke(state)\<close>: run the step of the current node, follow its edge, stop at END.
  The graph library is not part of the repository; this is the traversal the
  specification describes (section 4.1). The result is what the last step returned,
  with the state as the steps left it.
\<close>

fun rank :: "node \<Rightarrow> nat" where
  "rank Validate_Request = 0"
| "rank Gather_Claim_Info = 1"
| "rank Identify_Accounts = 2"
| "rank Hold_Request = 3"
| "rank Apply_Temporary_Suppression = 4"
| "rank Fulfill_Case_and_Detect = 5"
| "rank Cancel_CWD_Request = 5"

lemma edge_rank: "edge n r s = Some n' \<Longrightarrow> rank n < rank n' \<and> rank n' \<le> 5"
  by (cases n) (auto split: step_result.splits if_splits)

function run_from :: "node \<Rightarrow> state \<Rightarrow> clock \<Rightarrow> step_result \<times> state \<times> clock" where
  "run_from n s c =
     (case step n s c of
        (r, s', c') \<Rightarrow>
          (case edge n r s' of
             None \<Rightarrow> (r, s', c')
           | Some n' \<Rightarrow> run_from n' s' c'))"
  by pat_completeness auto
termination
  by (relation "measure (\<lambda>(n, s, c). 6 - rank n)") (auto dest!: edge_rank)

definition graph_invoke :: "state \<Rightarrow> clock \<Rightarrow> step_result \<times> state \<times> clock" where
  "graph_invoke s c = run_from Validate_Request s c"

section \<open>Audit metadata, events and the store\<close>

text \<open>An entry of \<open>steps_history\<close>: the dict \<open>{ts, node, actor, status}\<close>.\<close>

record step_entry =
  h_ts :: string
  h_node :: string
  h_actor :: string
  h_status :: string

text \<open>The dataclass \<open>InstanceMeta\<close>.\<close>

record instance_meta =
  m_instance_id :: string
  m_customer_id :: string
  m_workflow_name :: string
  m_started_by :: string
  m_last_actor :: "string option"
  m_status :: string
  m_last_node :: "string option"
  m_start_time :: "string option"
  m_end_time :: "string option"
  steps_history :: "step_entry list"

text \<open>The \<open>data\<close> dict of an event has one of five shapes.\<close>

datatype event_data =
    DCustomer string
  | DUpdates "string \<rightharpoonup> pyval"
  | DPrompt string
  | DResult pyval
  | DEmpty

record event =
  ev_ts :: string
  ev_instance_id :: string
  ev_event :: string
  ev_node :: "string option"
  ev_status :: string
  ev_actor :: "string option"
  ev_data :: event_data

text \<open>
  An engine owns its workflow name and its store. The store is read and written under
  four fixed namespaces; the index namespace holds the one key \<open>instances\<close>. The
  clock is the environment's.
\<close>

record engine =
  eng_workflow_name :: string
  states :: "string \<rightharpoonup> state"
  metas :: "string \<rightharpoonup> instance_meta"
  events :: "string \<rightharpoonup> event list"
  instances :: "string list option"
  clk :: clock

text \<open>
  The failures of the engine: \<open>resume\<close> raises \<open>ValueError("No workflow found: ...")\<close>
  (NotFound) and \<open>_update_meta_from_state\<close> raises \<open>ValueError("Missing meta")\<close>. A
  call that fails returns the engine as the raise left it.
\<close>

datatype error = NotFound string | MissingMeta

text \<open>The summary a run returns: the four dicts, told apart by their \<open>status\<close>.\<close>

datatype summary =
    SPaused string string
  | SCompleted string pyval string
  | SAborted string pyval string
  | SInProgress string string

fun summary_status :: "summary \<Rightarrow> string" where
  "summary_status (SPaused prompt iid) = ''paused''"
| "summary_status (SCompleted n res iid) = ''completed''"
| "summary_status (SAborted n res iid) = ''aborted''"
| "summary_status (SInProgress n iid) = ''in_progress''"

section \<open>The engine\<close>

definition add_to_index :: "engine \<Rightarrow> string \<Rightarrow> engine" where
  "add_to_index e iid =
     (let idx = (case instances e of None \<Rightarrow> [] | Some l \<Rightarrow> l) in
      if iid \<notin> set idx then e\<lparr>instances := Some (idx @ [iid])\<rparr> else e)"

definition append_event ::
  "engine \<Rightarrow> string \<Rightarrow> string \<Rightarrow> string option \<Rightarrow> string \<Rightarrow> string option \<Rightarrow> event_data \<Rightarrow> engine"
where
  "append_event e iid ev nd st actor dat =
     (let evs = (case events e iid of None \<Rightarrow> [] | Some l \<Rightarrow> l);
          (t, c) = now_iso (clk e) in
      e\<lparr>events := (events e)(iid \<mapsto> evs @
            [\<lparr>ev_ts = t, ev_instance_id = iid, ev_event = ev, ev_node = nd, ev_status = st,
              ev_actor = actor, ev_data = dat\<rparr>]),
        clk := c\<rparr>)"

text \<open>
  \<open>_put_meta\<close> stores a copy (\<open>asdict\<close>) of the metadata under the metadata's own
  \<open>instance_id\<close>.
\<close>

definition put_meta :: "engine \<Rightarrow> instance_meta \<Rightarrow> engine" where
  "put_meta e m = e\<lparr>metas := (metas e)(m_instance_id m \<mapsto> m)\<rparr>"

definition get_meta :: "engine \<Rightarrow> string \<Rightarrow> instance_meta option" where
  "get_meta e iid = metas e iid"

definition update_meta_from_state ::
  "engine \<Rightarrow> string \<Rightarrow> string \<Rightarrow> state \<Rightarrow> error + (engine \<times> instance_meta)"
where
  "update_meta_from_state e iid actor s =
     (case get_meta e iid of
        None \<Rightarrow> Inl MissingMeta
      | Some m \<Rightarrow>
          (let ln = last_node (meta s);
               st = (case status (meta s) of None \<Rightarrow> m_status m | Some x \<Rightarrow> x);
               m1 = m\<lparr>m_last_actor := Some actor\<rparr>;
               m2 = (if truthy_str ln then m1\<lparr>m_last_node := ln\<rparr> else m1);
               m3 = (if truthy_str (start_time (meta s)) \<and> \<not> truthy_str (m_start_time m2)
                     then m2\<lparr>m_start_time := start_time (meta s)\<rparr> else m2);
               m4 = (if truthy_str (end_time (meta s))
                     then m3\<lparr>m_end_time := end_time (meta s)\<rparr> else m3);
               m5 = m4\<lparr>m_status := st\<rparr>;
               prev_node = (if steps_history m5 = [] then None
                            else Some (h_node (last (steps_history m5))))
           in
             if truthy_str ln \<and> ln \<noteq> prev_node then
               (let (t, c) = now_iso (clk e);
                    m6 = m5\<lparr>steps_history := steps_history m5 @
                           [\<lparr>h_ts = t, h_node = the ln, h_actor = actor, h_status = m_status m5\<rparr>]\<rparr>
                in Inr (put_meta (e\<lparr>clk := c\<rparr>) m6, m6))
             else Inr (put_meta e m5, m5)))"

text \<open>The local helper of \<open>_run\<close>: project the metadata once more, store it, return the payload.\<close>

definition update_and_return ::
  "engine \<Rightarrow> string \<Rightarrow> string \<Rightarrow> summary \<Rightarrow> state \<Rightarrow> engine \<times> (error + summary)"
where
  "update_and_return e iid actor payload state_for_meta =
     (case update_meta_from_state e iid actor state_for_meta of
        Inl err \<Rightarrow> (e, Inl err)
      | Inr (e', m) \<Rightarrow> (put_meta e' m, Inr payload))"

text \<open>\<open>if not d.get("meta", {}).get("last_node"): d.setdefault("meta", {})["last_node"] = ...\<close>\<close>

definition default_last_node :: "state \<Rightarrow> state" where
  "default_last_node s =
     (if \<not> truthy_str (last_node (meta s)) then set_last_node ''Validate Request'' s else s)"

text \<open>\<open>result.get("bag", {}).get("result")\<close>: Python's None when the key is absent.\<close>

definition bag_result :: "state \<Rightarrow> pyval" where
  "bag_result s = (case bag s ''result'' of None \<Rightarrow> VNone | Some v \<Rightarrow> v)"

text \<open>
  \<open>_run\<close>. The state object handed to the graph is the object held by the store, so
  the store sees the default of \<open>last_node\<close> although it is written after the put.
\<close>

definition run :: "engine \<Rightarrow> string \<Rightarrow> state \<Rightarrow> string \<Rightarrow> engine \<times> (error + summary)" where
  "run e iid st actor =
     (case graph_invoke st (clk e) of
        (Interrupt prompt, s1, c1) \<Rightarrow>
          (let s2 = default_last_node s1;
               e1 = e\<lparr>clk := c1, states := (states e)(iid \<mapsto> s2)\<rparr> in
           case update_meta_from_state e1 iid actor s2 of
             Inl err \<Rightarrow> (e1, Inl err)
           | Inr (e2, m) \<Rightarrow>
               (let (e3, m') =
                      (if m_status m \<noteq> ''completed'' \<and> m_status m \<noteq> ''aborted''
                       then (put_meta e2 (m\<lparr>m_status := ''paused''\<rparr>), m\<lparr>m_status := ''paused''\<rparr>)
                       else (e2, m));
                    e4 = append_event e3 iid ''paused'' (last_node (meta s2)) (m_status m')
                           (Some actor) (DPrompt prompt)
                in update_and_return e4 iid actor (SPaused prompt iid) s2))
      | (Returned, s1, c1) \<Rightarrow>
          (let s2 = default_last_node s1;
               e1 = e\<lparr>clk := c1, states := (states e)(iid \<mapsto> s2)\<rparr> in
           case update_meta_from_state e1 iid actor s2 of
             Inl err \<Rightarrow> (e1, Inl err)
           | Inr (e2, m) \<Rightarrow>
               (let nd = the (last_node (meta s2));
                    st' = (case status (meta s2) of None \<Rightarrow> m_status m | Some x \<Rightarrow> x)
                in
                  if st' = ''completed'' then
                    (let m' = m\<lparr>m_status := ''completed''\<rparr>;
                         e3 = put_meta e2 m';
                         e4 = append_event e3 iid ''completed'' (Some nd) (m_status m')
                                (Some actor) (DResult (bag_result s2))
                     in update_and_return e4 iid actor (SCompleted nd (bag_result s2) iid) s2)
                  else if st' = ''aborted'' then
                    (let m' = m\<lparr>m_status := ''aborted''\<rparr>;
                         e3 = put_meta e2 m';
                         e4 = append_event e3 iid ''aborted'' (Some nd) (m_status m')
                                (Some actor) (DResult (bag_result s2))
                     in update_and_return e4 iid actor (SAborted nd (bag_result s2) iid) s2)
                  else
                    (let m' = m\<lparr>m_status := ''in_progress''\<rparr>;
                         e3 = put_meta e2 m';
                         e4 = append_event e3 iid ''progressed'' (Some nd) (m_status m')
                                (Some actor) DEmpty
                     in update_and_return e4 iid actor (SInProgress nd iid) s2))))"

text \<open>
  \<open>start\<close>. The fresh identifier \<open>str(uuid.uuid4())\<close> is the argument \<open>iid\<close>.
\<close>

definition start ::
  "engine \<Rightarrow> string \<Rightarrow> string \<Rightarrow> string \<Rightarrow> engine \<times> (error + string \<times> summary)"
where
  "start e iid cust started_by =
     (let (t, c) = now_iso (clk e);
          st = \<lparr>instance_id = iid, customer_id = cust, workflow_name = eng_workflow_name e,
                bag = Map.empty,
                meta = \<lparr>status = Some ''in_progress'', last_node = None,
                         start_time = Some t, end_time = None\<rparr>\<rparr>;
          m = \<lparr>m_instance_id = iid, m_customer_id = cust,
               m_workflow_name = eng_workflow_name e, m_started_by = started_by,
               m_last_actor = Some started_by, m_status = ''in_progress'',
               m_last_node = None, m_start_time = start_time (meta st), m_end_time = None,
               steps_history = []\<rparr>;
          e1 = e\<lparr>clk := c, states := (states e)(iid \<mapsto> st)\<rparr>;
          e2 = put_meta e1 m;
          e3 = add_to_index e2 iid;
          e4 = append_event e3 iid ''created'' None (m_status m) (Some started_by)
                 (DCustomer cust)
      in case run e4 iid st started_by of
           (e5, Inl err) \<Rightarrow> (e5, Inl err)
         | (e5, Inr sm) \<Rightarrow> (e5, Inr (iid, sm)))"

definition resume ::
  "engine \<Rightarrow> string \<Rightarrow> string \<Rightarrow> (string \<rightharpoonup> pyval) \<Rightarrow> engine \<times> (error + summary)"
where
  "resume e iid actor updates =
     (case states e iid of
        None \<Rightarrow> (e, Inl (NotFound iid))
      | Some st0 \<Rightarrow>
          (let st = st0\<lparr>bag := bag st0 ++ updates\<rparr>;
               e1 = e\<lparr>states := (states e)(iid \<mapsto> st)\<rparr>;
               e2 = append_event e1 iid ''resume_command'' (last_node (meta st))
                      ''in_progress'' (Some actor) (DUpdates updates)
           in run e2 iid st actor))"

text \<open>The queries.\<close>

definition get_state :: "engine \<Rightarrow> string \<Rightarrow> state option" where
  "get_state e iid = states e iid"

definition history :: "engine \<Rightarrow> string \<Rightarrow> event list" where
  "history e iid = (case events e iid of None \<Rightarrow> [] | Some l \<Rightarrow> l)"

text \<open>
  \<open>list_instances\<close>. A filter is applied when it passes Python's truth test: None and
  the empty string apply no filter. The sort key is the timestamp of the last
  \<open>steps_history\<close> entry, the empty string when there is none, and
  \<open>sort(key, reverse=True)\<close> is the stable descending sort.
\<close>

definition sort_ts :: "instance_meta \<Rightarrow> string" where
  "sort_ts x = (if steps_history x \<noteq> [] then h_ts (last (steps_history x)) else [])"

definition sort_reverse :: "('a \<Rightarrow> 'k::linorder) \<Rightarrow> 'a list \<Rightarrow> 'a list" where
  "sort_reverse f xs = rev (sort_key f (rev xs))"

definition keeps ::
  "string option \<Rightarrow> string option \<Rightarrow> string option \<Rightarrow> string option \<Rightarrow> instance_meta \<Rightarrow> bool"
where
  "keeps cust st started_by wname m =
     (\<not> (truthy_str wname \<and> Some (m_workflow_name m) \<noteq> wname) \<and>
      \<not> (truthy_str cust \<and> Some (m_customer_id m) \<noteq> cust) \<and>
      \<not> (truthy_str st \<and> Some (m_status m) \<noteq> st) \<and>
      \<not> (truthy_str started_by \<and> Some (m_started_by m) \<noteq> started_by))"

fun collect ::
  "engine \<Rightarrow> string option \<Rightarrow> string option \<Rightarrow> string option \<Rightarrow> string option \<Rightarrow>
   string list \<Rightarrow> instance_meta list"
where
  "collect e cust st started_by wname [] = []"
| "collect e cust st started_by wname (iid # ids) =
     (case get_meta e iid of
        None \<Rightarrow> collect e cust st started_by wname ids
      | Some m \<Rightarrow>
          if keeps cust st started_by wname m then m # collect e cust st started_by wname ids
          else collect e cust st started_by wname ids)"

definition list_instances ::
  "engine \<Rightarrow> string option \<Rightarrow> string option \<Rightarrow> string option \<Rightarrow> string option \<Rightarrow>
   instance_meta list"
where
  "list_instances e cust st started_by wname =
     (let ids = (case instances e of None \<Rightarrow> [] | Some l \<Rightarrow> l) in
      sort_reverse sort_ts (collect e cust st started_by wname ids))"

text \<open>\<open>Engine(InMemoryStore(), workflow_name)\<close>: an engine over an empty store.\<close>

definition new_engine :: "string \<Rightarrow> clock \<Rightarrow> engine" where
  "new_engine wname c =
     \<lparr>eng_workflow_name = wname, states = Map.empty, metas = Map.empty, events = Map.empty,
      instances = None, clk = c\<rparr>"


section \<open>What a step and a run leave behind\<close>

definition dflt_status :: "string option \<Rightarrow> string" where
  "dflt_status x = (case x of None \<Rightarrow> ''in_progress'' | Some y \<Rightarrow> y)"

definition terminal_node :: "node \<Rightarrow> bool" where
  "terminal_node n = (n = Cancel_CWD_Request \<or> n = Fulfill_Case_and_Detect)"

fun required_key :: "node \<Rightarrow> string" where
  "required_key Validate_Request = ''validate''"
| "required_key Gather_Claim_Info = ''claim_details''"
| "required_key Identify_Accounts = ''process_decision''"
| "required_key Hold_Request = ''hold_action''"
| "required_key Apply_Temporary_Suppression = ''proceed_fulfill''"
| "required_key n = []"

fun prompt_of :: "node \<Rightarrow> string" where
  "prompt_of Validate_Request = ''Validate request? (yes/no)''"
| "prompt_of Gather_Claim_Info = ''Provide claim details''"
| "prompt_of Identify_Accounts = ''Decision? cancel / hold / suppress''"
| "prompt_of Hold_Request = ''Workflow on hold. Command: resume / abort''"
| "prompt_of Apply_Temporary_Suppression = ''Proceed to fulfill? (yes/no)''"
| "prompt_of n = []"

fun final_status :: "node \<Rightarrow> string" where
  "final_status Cancel_CWD_Request = ''aborted''"
| "final_status n = ''completed''"

fun final_result :: "node \<Rightarrow> string" where
  "final_result Cancel_CWD_Request = ''Workflow aborted.''"
| "final_result n = ''Fulfilled and detection complete.''"

definition touched :: "node \<Rightarrow> state \<Rightarrow> clock \<Rightarrow> state" where
  "touched n s c = s\<lparr>meta := (meta s)\<lparr>
      status := Some (dflt_status (status (meta s))),
      start_time := Some (case start_time (meta s) of None \<Rightarrow> readings c (tick c) | Some x \<Rightarrow> x),
      last_node := Some (node_name n)\<rparr>\<rparr>"

text \<open>What a traversal leaves behind, in terms of the state it started from.\<close>

definition run_post :: "state \<Rightarrow> step_result \<Rightarrow> state \<Rightarrow> bool" where
  "run_post s r s' =
     (instance_id s' = instance_id s \<and> customer_id s' = customer_id s \<and>
      workflow_name s' = workflow_name s \<and>
      (\<exists>n. last_node (meta s') = Some (node_name n) \<and>
         (if terminal_node n
          then r = Returned \<and> status (meta s') = Some (final_status n) \<and>
               bag s' = (bag s)(''result'' \<mapsto> VStr (final_result n))
          else bag s' = bag s \<and> status (meta s') = Some (dflt_status (status (meta s))) \<and>
               (r = Returned \<or> r = Interrupt (prompt_of n) \<and> bag s (required_key n) = None) \<and>
               (r = Returned \<longrightarrow> bag s (required_key n) \<noteq> None \<and> edge n Returned s' = None))))"

definition agree :: "(string \<rightharpoonup> pyval) \<Rightarrow> (string \<rightharpoonup> pyval) \<Rightarrow> bool" where
  "agree b1 b2 =
     (b1 ''validate'' = b2 ''validate'' \<and> b1 ''claim_details'' = b2 ''claim_details'' \<and>
      b1 ''process_decision'' = b2 ''process_decision'' \<and> b1 ''hold_action'' = b2 ''hold_action'' \<and>
      b1 ''proceed_fulfill'' = b2 ''proceed_fulfill'')"

text \<open>
  What \<open>_update_meta_from_state\<close> writes: the fields it copies from the state, and
  whether it appends to \<open>steps_history\<close>.
\<close>

definition copied :: "instance_meta \<Rightarrow> string \<Rightarrow> state \<Rightarrow> instance_meta" where
  "copied m actor s =
     (let ln = last_node (meta s);
          m1 = m\<lparr>m_last_actor := Some actor\<rparr>;
          m2 = (if truthy_str ln then m1\<lparr>m_last_node := ln\<rparr> else m1);
          m3 = (if truthy_str (start_time (meta s)) \<and> \<not> truthy_str (m_start_time m2)
                then m2\<lparr>m_start_time := start_time (meta s)\<rparr> else m2);
          m4 = (if truthy_str (end_time (meta s))
                then m3\<lparr>m_end_time := end_time (meta s)\<rparr> else m3)
      in m4\<lparr>m_status := (case status (meta s) of None \<Rightarrow> m_status m | Some x \<Rightarrow> x)\<rparr>)"

definition appends :: "instance_meta \<Rightarrow> state \<Rightarrow> bool" where
  "appends m s =
     (truthy_str (last_node (meta s)) \<and>
      (steps_history m = [] \<or> h_node (last (steps_history m)) \<noteq> the (last_node (meta s))))"

definition new_entry :: "instance_meta \<Rightarrow> string \<Rightarrow> state \<Rightarrow> string \<Rightarrow> step_entry" where
  "new_entry m actor s t =
     \<lparr>h_ts = t, h_node = the (last_node (meta s)), h_actor = actor,
      h_status = (case status (meta s) of None \<Rightarrow> m_status m | Some x \<Rightarrow> x)\<rparr>"

definition projected :: "instance_meta \<Rightarrow> string \<Rightarrow> state \<Rightarrow> string \<Rightarrow> instance_meta" where
  "projected m actor s t =
     (copied m actor s)\<lparr>steps_history := steps_history m @
        (if appends m s then [new_entry m actor s t] else [])\<rparr>"

text \<open>The summary and the event kind of a run, read off what the graph returned.\<close>

definition run_summary :: "string \<Rightarrow> step_result \<Rightarrow> state \<Rightarrow> summary" where
  "run_summary iid r s =
     (case r of
        Interrupt p \<Rightarrow> SPaused p iid
      | Returned \<Rightarrow>
          if status (meta s) = Some ''completed''
          then SCompleted (the (last_node (meta s))) (bag_result s) iid
          else if status (meta s) = Some ''aborted''
          then SAborted (the (last_node (meta s))) (bag_result s) iid
          else SInProgress (the (last_node (meta s))) iid)"

definition outcome_kind :: "step_result \<Rightarrow> state \<Rightarrow> string" where
  "outcome_kind r s =
     (case r of
        Interrupt p \<Rightarrow> ''paused''
      | Returned \<Rightarrow>
          if status (meta s) = Some ''completed'' then ''completed''
          else if status (meta s) = Some ''aborted'' then ''aborted''
          else ''progressed'')"

definition terminal_event :: "event \<Rightarrow> bool" where
  "terminal_event ev = (ev_event ev = ''completed'' \<or> ev_event ev = ''aborted'')"


section \<open>Sequences of calls\<close>

text \<open>
  An identifier that \<open>uuid4\<close> draws is one the store has never seen.
\<close>

definition fresh :: "engine \<Rightarrow> string \<Rightarrow> bool" where
  "fresh e iid =
     (states e iid = None \<and> metas e iid = None \<and> events e iid = None \<and>
      iid \<notin> set (case instances e of None \<Rightarrow> [] | Some l \<Rightarrow> l))"

text \<open>
  One call of the public interface that writes: \<open>start\<close> with a fresh identifier, or
  \<open>resume\<close>. Beside the engine stands a log of what the last successful call on each
  instance returned; the log is an observer's record, not part of the engine.
\<close>

type_synonym call_log = "string \<rightharpoonup> summary"

inductive call :: "engine \<times> call_log \<Rightarrow> engine \<times> call_log \<Rightarrow> bool" where
  call_start:
    "fresh e iid \<Longrightarrow> start e iid cust started_by = (e', Inr (iid, sm)) \<Longrightarrow>
     call (e, L) (e', L(iid \<mapsto> sm))"
| call_resume:
    "resume e iid actor updates = (e', Inr sm) \<Longrightarrow> call (e, L) (e', L(iid \<mapsto> sm))"
| call_failed:
    "resume e iid actor updates = (e', Inl err) \<Longrightarrow> call (e, L) (e', L)"

definition reachable :: "engine \<Rightarrow> call_log \<Rightarrow> bool" where
  "reachable e L = (\<exists>wname c. call\<^sup>*\<^sup>* (new_engine wname c, Map.empty) (e, L))"

text \<open>What every reachable engine satisfies.\<close>

definition engine_inv :: "engine \<Rightarrow> call_log \<Rightarrow> bool" where
  "engine_inv e L =
     ((\<forall>iid m. metas e iid = Some m \<longrightarrow>
         m_instance_id m = iid \<and> distinct_adj (map h_node (steps_history m))) \<and>
      (\<forall>iid st. states e iid = Some st \<longrightarrow>
         (\<exists>m. metas e iid = Some m \<and> status (meta st) = Some (m_status m) \<and>
              m_last_node m = last_node (meta st)) \<and>
         (\<forall>c r s' c'. graph_invoke st c = (r, s', c') \<longrightarrow>
            bag s' = bag st \<and> last_node (meta s') = last_node (meta st) \<and>
            status (meta s') = status (meta st) \<and> L iid = Some (run_summary iid r s'))))"

text \<open>
  The traversal from the entry step comes to node \<open>n\<close>: every step on the way finds its
  required key in the bag, and its edge leads on. The steps on the way leave the bag as
  it is, so the edges are read on the state the traversal starts from.
\<close>

inductive visits :: "state \<Rightarrow> node \<Rightarrow> bool" where
  visits_entry: "visits s Validate_Request"
| visits_edge:
    "visits s n \<Longrightarrow> bag s (required_key n) \<noteq> None \<Longrightarrow> edge n Returned s = Some n' \<Longrightarrow>
     visits s n'"


section \<open>Engines and states of the examples\<close>

text \<open>A clock whose \<open>n\<close>-th reading is \<open>n + 1\<close> characters long.\<close>

definition demo_clock :: clock where
  "demo_clock = \<lparr>readings = (\<lambda>n. replicate (Suc n) CHR ''t''), tick = 0\<rparr>"

definition demo_engine :: engine where
  "demo_engine = new_engine ''ClaimWorkflow'' demo_clock"

text \<open>The state \<open>start\<close> builds, with a given bag.\<close>

definition demo_state :: "(string \<rightharpoonup> pyval) \<Rightarrow> state" where
  "demo_state b =
     \<lparr>instance_id = ''i1'', customer_id = ''C1'', workflow_name = ''ClaimWorkflow'', bag = b,
      meta = \<lparr>status = Some ''in_progress'', last_node = None, start_time = Some ''t'',
               end_time = None\<rparr>\<rparr>"

definition demo_started :: engine where
  "demo_started = fst (start demo_engine ''i1'' ''C1'' ''u1'')"

definition demo_aborted :: engine where
  "demo_aborted = fst (resume demo_started ''i1'' ''u2'' [''validate'' \<mapsto> VStr ''no''])"


section \<open>Properties of the graph and of the engine\<close>

subsection \<open>One step, one traversal\<close>

declare run_from.simps [simp del]

lemma step_guarded:
  "\<not> terminal_node n \<Longrightarrow>
   step n s c = (if bag s (required_key n) = None then Interrupt (prompt_of n) else Returned,
                 touched n s c, c\<lparr>tick := Suc (tick c)\<rparr>)"
  by (cases n)
     (simp_all add: terminal_node_def touched_def dflt_status_def validate_request_def
        gather_claim_info_def identify_accounts_def hold_request_def apply_suppression_def
        ensure_defaults_def set_last_node_def now_iso_def Let_def)

lemma step_terminal:
  "terminal_node n \<Longrightarrow>
   step n s c = (Returned,
      (touched n s c)\<lparr>meta := (meta (touched n s c))\<lparr>status := Some (final_status n),
             end_time := Some (readings c (Suc (tick c)))\<rparr>,
         bag := (bag s)(''result'' \<mapsto> VStr (final_result n))\<rparr>,
      c\<lparr>tick := Suc (Suc (tick c))\<rparr>)"
  by (cases n)
     (simp_all add: terminal_node_def touched_def dflt_status_def cancel_request_def
        fulfill_case_def ensure_defaults_def set_last_node_def now_iso_def Let_def)

lemma edge_terminal: "terminal_node n \<Longrightarrow> edge n r s = None"
  by (cases n) (simp_all add: terminal_node_def)

lemma edge_Some_guarded: "edge n r s = Some n' \<Longrightarrow> \<not> terminal_node n \<and> r = Returned"
  by (cases n; cases r) (simp_all add: terminal_node_def)

lemma edge_bag_cong: "bag s = bag t \<Longrightarrow> edge n r s = edge n r t"
  by (cases n) simp_all

lemma dflt_status_idem [simp]: "dflt_status (Some (dflt_status x)) = dflt_status x"
  by (simp add: dflt_status_def)

lemma run_from_post: "run_from n s c = (r, s', c') \<Longrightarrow> run_post s r s'"
proof (induction n s c arbitrary: r s' c' rule: run_from.induct)
  case (1 n s c)
  obtain r1 s1 c1 where st: "step n s c = (r1, s1, c1)" by (cases "step n s c") auto
  show ?case
  proof (cases "edge n r1 s1")
    case None
    with st "1.prems" have eq: "r = r1" "s' = s1" by (simp_all add: run_from.simps[of n])
    show ?thesis
    proof (cases "terminal_node n")
      case True
      with st eq show ?thesis
        by (auto simp: step_terminal run_post_def touched_def intro!: exI[of _ n])
    next
      case False
      with st eq None show ?thesis
        by (auto simp: step_guarded run_post_def touched_def intro!: exI[of _ n] split: if_splits)
    qed
  next
    case (Some n')
    then have g: "\<not> terminal_node n" "r1 = Returned" using edge_Some_guarded by blast+
    from st Some "1.prems" have "run_from n' s1 c1 = (r, s', c')"
      by (simp add: run_from.simps[of n])
    then have post: "run_post s1 r s'" using "1.IH" st Some by simp
    from g st have s1: "s1 = touched n s c" by (simp add: step_guarded split: if_splits)
    show ?thesis using post unfolding run_post_def s1
      by (auto simp: touched_def)
  qed
qed

subsection \<open>A second traversal of the same bag\<close>

lemma agree_refl [simp]: "agree b b"
  by (simp add: agree_def)

lemma agree_result [simp]: "agree (b(''result'' \<mapsto> v)) b"
  by (simp add: agree_def)

lemma agree_required: "agree b1 b2 \<Longrightarrow> \<not> terminal_node n \<Longrightarrow> b1 (required_key n) = b2 (required_key n)"
  by (cases n) (simp_all add: agree_def terminal_node_def)

lemma edge_agree: "agree (bag s) (bag t) \<Longrightarrow> edge n r s = edge n r t"
  by (cases n) (simp_all add: agree_def)

lemma node_name_inj: "node_name n = node_name n' \<Longrightarrow> n = n'"
  by (cases n; cases n'; simp)

lemma node_name_nonempty [simp]: "node_name n \<noteq> []"
  by (cases n) simp_all

lemma run_from_agree:
  "agree (bag s) (bag t) \<Longrightarrow> run_from n s c = (r, s', c') \<Longrightarrow> run_from n t d = (r2, t', d') \<Longrightarrow>
   r2 = r \<and> last_node (meta t') = last_node (meta s')"
proof (induction n s c arbitrary: t d rule: run_from.induct)
  case (1 n s c)
  show ?case
  proof (cases "terminal_node n")
    case True
    with "1.prems" show ?thesis
      by (auto simp: run_from.simps[of n] step_terminal edge_terminal touched_def)
  next
    case False
    let ?r1 = "if bag s (required_key n) = None then Interrupt (prompt_of n) else Returned"
    have key: "bag t (required_key n) = bag s (required_key n)"
      using agree_required[OF "1.prems"(1) False] by simp
    have ss: "step n s c = (?r1, touched n s c, c\<lparr>tick := Suc (tick c)\<rparr>)"
      using False by (simp add: step_guarded)
    have st: "step n t d = (?r1, touched n t d, d\<lparr>tick := Suc (tick d)\<rparr>)"
      using False key by (simp add: step_guarded)
    have ag: "agree (bag (touched n s c)) (bag (touched n t d))"
      using "1.prems"(1) by (simp add: touched_def)
    have ed: "edge n ?r1 (touched n t d) = edge n ?r1 (touched n s c)"
      using edge_agree[OF ag] by simp
    show ?thesis
    proof (cases "edge n ?r1 (touched n s c)")
      case None
      with ss st ed "1.prems" show ?thesis
        by (auto simp: run_from.simps[of n] touched_def)
    next
      case (Some n')
      from Some ss "1.prems"(2) have a: "run_from n' (touched n s c) (c\<lparr>tick := Suc (tick c)\<rparr>) = (r, s', c')"
        by (simp add: run_from.simps[of n])
      from Some st ed "1.prems"(3) have b: "run_from n' (touched n t d) (d\<lparr>tick := Suc (tick d)\<rparr>) = (r2, t', d')"
        by (simp add: run_from.simps[of n])
      show ?thesis using "1.IH"[OF ss[symmetric] refl Some ag a b] .
    qed
  qed
qed

lemma graph_invoke_again:
  assumes "graph_invoke s c = (r, s', c')" "graph_invoke s' d = (r2, s2, d2)"
  shows "r2 = r \<and> bag s2 = bag s' \<and> last_node (meta s2) = last_node (meta s') \<and>
         status (meta s2) = status (meta s')"
proof -
  have p1: "run_post s r s'" and p2: "run_post s' r2 s2"
    using assms by (auto simp: graph_invoke_def dest: run_from_post)
  from p1 obtain n where n: "last_node (meta s') = Some (node_name n)"
    and n1: "if terminal_node n
          then r = Returned \<and> status (meta s') = Some (final_status n) \<and>
               bag s' = (bag s)(''result'' \<mapsto> VStr (final_result n))
          else bag s' = bag s \<and> status (meta s') = Some (dflt_status (status (meta s)))"
    unfolding run_post_def by auto
  have ag: "agree (bag s) (bag s')"
    using n1 by (auto split: if_splits simp: agree_def)
  from run_from_agree[OF ag] assms have eq: "r2 = r" "last_node (meta s2) = last_node (meta s')"
    unfolding graph_invoke_def by blast+
  from p2 obtain n2 where n2: "last_node (meta s2) = Some (node_name n2)"
    and n3: "if terminal_node n2
          then r2 = Returned \<and> status (meta s2) = Some (final_status n2) \<and>
               bag s2 = (bag s')(''result'' \<mapsto> VStr (final_result n2))
          else bag s2 = bag s' \<and> status (meta s2) = Some (dflt_status (status (meta s')))"
    unfolding run_post_def by auto
  have "n2 = n" using n n2 eq node_name_inj by simp
  with n1 n3 eq show ?thesis
    by (auto split: if_splits)
qed

subsection \<open>The metadata projection\<close>

lemma graph_invoke_post: "graph_invoke s c = (r, s', c') \<Longrightarrow> run_post s r s'"
  by (simp add: graph_invoke_def run_from_post)

lemma run_post_last_node: "run_post s r s' \<Longrightarrow> truthy_str (last_node (meta s'))"
  by (auto simp: run_post_def)

lemma run_post_status: "run_post s r s' \<Longrightarrow> \<exists>x. status (meta s') = Some x"
  by (auto simp: run_post_def split: if_splits)

lemma run_post_default [simp]: "run_post s r s' \<Longrightarrow> default_last_node s' = s'"
  by (auto simp: run_post_def default_last_node_def)

lemma copied_fields [simp]:
  "m_instance_id (copied m actor s) = m_instance_id m"
  "m_customer_id (copied m actor s) = m_customer_id m"
  "m_workflow_name (copied m actor s) = m_workflow_name m"
  "m_started_by (copied m actor s) = m_started_by m"
  "m_last_actor (copied m actor s) = Some actor"
  "m_status (copied m actor s) = (case status (meta s) of None \<Rightarrow> m_status m | Some x \<Rightarrow> x)"
  "steps_history (copied m actor s) = steps_history m"
  "m_last_node (copied m actor s) =
     (if truthy_str (last_node (meta s)) then last_node (meta s) else m_last_node m)"
  by (simp_all add: copied_def Let_def)

lemma update_meta_from_state_unfold:
  "update_meta_from_state e iid actor s =
     (case metas e iid of
        None \<Rightarrow> Inl MissingMeta
      | Some m \<Rightarrow>
          if appends m s then
            (let m' = (copied m actor s)\<lparr>steps_history := steps_history m @
                         [new_entry m actor s (readings (clk e) (tick (clk e)))]\<rparr>
             in Inr (e\<lparr>clk := (clk e)\<lparr>tick := Suc (tick (clk e))\<rparr>,
                       metas := (metas e)(m_instance_id m \<mapsto> m')\<rparr>, m'))
          else Inr (e\<lparr>metas := (metas e)(m_instance_id m \<mapsto> copied m actor s)\<rparr>,
                    copied m actor s))"
proof (cases "metas e iid")
  case None
  then show ?thesis by (simp add: update_meta_from_state_def get_meta_def)
next
  case (Some m)
  have hist: "\<And>ln. last_node (meta s) = Some ln \<Longrightarrow>
      (Some ln \<noteq> (if steps_history m = [] then None else Some (h_node (last (steps_history m)))))
      = (steps_history m = [] \<or> h_node (last (steps_history m)) \<noteq> ln)"
    by auto
  show ?thesis
  proof (cases "last_node (meta s)")
    case None
    with Some show ?thesis
      by (simp add: update_meta_from_state_def get_meta_def put_meta_def copied_def appends_def
            Let_def)
  next
    case ln: (Some ln)
    with Some show ?thesis
      by (cases "truthy_str (start_time (meta s)) \<and> \<not> truthy_str (m_start_time m)";
          cases "truthy_str (end_time (meta s))"; cases "ln = []")
         (simp_all add: update_meta_from_state_def get_meta_def put_meta_def copied_def
            appends_def new_entry_def Let_def now_iso_def hist)
  qed
qed

lemma copied_same_history [simp]:
  "(copied m actor s)\<lparr>steps_history := steps_history m\<rparr> = copied m actor s"
  by (subst copied_fields(7)[symmetric, of m actor s]) (simp del: copied_fields)

lemma update_meta_from_state_projected:
  "metas e iid = Some m \<Longrightarrow>
   update_meta_from_state e iid actor s =
     Inr (e\<lparr>clk := (if appends m s then (clk e)\<lparr>tick := Suc (tick (clk e))\<rparr> else clk e),
            metas := (metas e)(m_instance_id m \<mapsto> projected m actor s (readings (clk e) (tick (clk e))))\<rparr>,
          projected m actor s (readings (clk e) (tick (clk e))))"
  by (simp add: update_meta_from_state_unfold projected_def Let_def)

lemma projected_fields [simp]:
  "m_instance_id (projected m actor s t) = m_instance_id m"
  "m_customer_id (projected m actor s t) = m_customer_id m"
  "m_workflow_name (projected m actor s t) = m_workflow_name m"
  "m_started_by (projected m actor s t) = m_started_by m"
  "m_last_actor (projected m actor s t) = Some actor"
  "m_status (projected m actor s t) = (case status (meta s) of None \<Rightarrow> m_status m | Some x \<Rightarrow> x)"
  "steps_history (projected m actor s t) =
     steps_history m @ (if appends m s then [new_entry m actor s t] else [])"
  "m_last_node (projected m actor s t) =
     (if truthy_str (last_node (meta s)) then last_node (meta s) else m_last_node m)"
  by (simp_all add: projected_def)

lemma appends_projected:
  "truthy_str (last_node (meta s)) \<Longrightarrow> \<not> appends ((projected m actor s t)\<lparr>m_status := z\<rparr>) s"
  by (simp add: appends_def new_entry_def)

lemma copied_projected:
  assumes "status (meta s) = Some x"
  shows "copied ((projected m actor s t)\<lparr>m_status := z\<rparr>) actor s = projected m actor s t"
  using assms
  by (cases "truthy_str (last_node (meta s))"; cases "truthy_str (end_time (meta s))";
      cases "truthy_str (start_time (meta s))"; cases "truthy_str (m_start_time m)")
     (simp_all add: projected_def copied_def Let_def)

lemma projected_again:
  assumes "status (meta s) = Some x" "truthy_str (last_node (meta s))"
  shows "projected ((projected m actor s t)\<lparr>m_status := z\<rparr>) actor s t' = projected m actor s t"
proof -
  have "projected ((projected m actor s t)\<lparr>m_status := z\<rparr>) actor s t' =
        (copied ((projected m actor s t)\<lparr>m_status := z\<rparr>) actor s)
          \<lparr>steps_history := steps_history (projected m actor s t)\<rparr>"
    using appends_projected[OF assms(2)] by (simp add: projected_def)
  also have "\<dots> = projected m actor s t"
    by (simp add: copied_projected[OF assms(1)])
  finally show ?thesis .
qed

lemma projected_again_same:
  assumes "status (meta s) = Some x" "truthy_str (last_node (meta s))"
  shows "projected (projected m actor s t) actor s t' = projected m actor s t"
proof -
  have e: "(projected m actor s t)\<lparr>m_status := m_status (projected m actor s t)\<rparr> =
           projected m actor s t"
    by (simp del: projected_fields)
  show ?thesis
    using projected_again[OF assms, where z = "m_status (projected m actor s t)" and m = m
      and actor = actor and t = t and t' = t']
    unfolding e .
qed

subsection \<open>One run\<close>

lemma append_event_fields [simp]:
  "states (append_event e iid k nd st act dat) = states e"
  "metas (append_event e iid k nd st act dat) = metas e"
  "instances (append_event e iid k nd st act dat) = instances e"
  "eng_workflow_name (append_event e iid k nd st act dat) = eng_workflow_name e"
  "clk (append_event e iid k nd st act dat) = (clk e)\<lparr>tick := Suc (tick (clk e))\<rparr>"
  "events (append_event e iid k nd st act dat) =
     (events e)(iid \<mapsto> history e iid @
        [\<lparr>ev_ts = readings (clk e) (tick (clk e)), ev_instance_id = iid, ev_event = k,
          ev_node = nd, ev_status = st, ev_actor = act, ev_data = dat\<rparr>])"
  by (simp_all add: append_event_def history_def now_iso_def Let_def)

lemma put_meta_fields [simp]:
  "states (put_meta e m) = states e"
  "metas (put_meta e m) = (metas e)(m_instance_id m \<mapsto> m)"
  "instances (put_meta e m) = instances e"
  "eng_workflow_name (put_meta e m) = eng_workflow_name e"
  "clk (put_meta e m) = clk e"
  "events (put_meta e m) = events e"
  by (simp_all add: put_meta_def)

text \<open>The last three actions of every branch of \<open>_run\<close>: log the outcome, project again, store.\<close>

lemma update_and_return_Some:
  assumes "metas e iid = Some mm"
  shows "\<exists>e'. update_and_return e iid actor payload s = (e', Inr payload) \<and>
           states e' = states e \<and> events e' = events e \<and> instances e' = instances e \<and>
           eng_workflow_name e' = eng_workflow_name e \<and>
           metas e' = (metas e)(m_instance_id mm \<mapsto>
                        projected mm actor s (readings (clk e) (tick (clk e))))"
  using assms
  by (simp add: update_and_return_def update_meta_from_state_projected)

lemma run_result:
  assumes m: "metas e iid = Some m" and g: "graph_invoke st (clk e) = (r, s', c')"
  shows "\<exists>e' ev. run e iid st actor = (e', Inr (run_summary iid r s')) \<and>
           states e' = (states e)(iid \<mapsto> s') \<and>
           events e' = (events e)(iid \<mapsto> history e iid @ [ev]) \<and>
           ev_event ev = outcome_kind r s' \<and> ev_instance_id ev = iid \<and>
           ev_node ev = last_node (meta s') \<and> ev_actor ev = Some actor \<and>
           instances e' = instances e \<and> eng_workflow_name e' = eng_workflow_name e \<and>
           metas e' iid \<noteq> None \<and>
           (m_instance_id m = iid \<longrightarrow>
              (\<exists>t. metas e' = (metas e)(iid \<mapsto> projected m actor s' t)))"
proof -
  have post: "run_post st r s'" using g by (rule graph_invoke_post)
  then obtain x where x: "status (meta s') = Some x" using run_post_status by blast
  have ln: "truthy_str (last_node (meta s'))" using post by (rule run_post_last_node)
  then obtain nd where nd: "last_node (meta s') = Some nd" by (cases "last_node (meta s')") auto
  have dl: "default_last_node s' = s'" using post by simp
  define e1 where "e1 = e\<lparr>clk := c', states := (states e)(iid \<mapsto> s')\<rparr>"
  define t1 where "t1 = readings (clk e1) (tick (clk e1))"
  define m6 where "m6 = projected m actor s' t1"
  define e2 where "e2 = e1\<lparr>clk := (if appends m s' then (clk e1)\<lparr>tick := Suc (tick (clk e1))\<rparr> else clk e1),
            metas := (metas e1)(m_instance_id m \<mapsto> m6)\<rparr>"
  have u1: "update_meta_from_state e1 iid actor s' = Inr (e2, m6)"
    using m by (simp add: update_meta_from_state_projected e1_def e2_def m6_def t1_def)
  have m6s: "m_status m6 = x" "m_instance_id m6 = m_instance_id m"
    by (simp_all add: m6_def x)
  text \<open>every branch stores \<open>m6\<close> with some status \<open>z\<close> or leaves the store as it is\<close>
  have tail: "\<exists>e' ev. update_and_return
                 (append_event e3 iid k (Some nd) stt (Some actor) dat) iid actor payload s' =
                   (e', Inr payload) \<and>
           states e' = (states e)(iid \<mapsto> s') \<and>
           events e' = (events e)(iid \<mapsto> history e iid @ [ev]) \<and>
           ev_event ev = k \<and> ev_instance_id ev = iid \<and>
           ev_node ev = Some nd \<and> ev_actor ev = Some actor \<and>
           instances e' = instances e \<and> eng_workflow_name e' = eng_workflow_name e \<and>
           metas e' iid \<noteq> None \<and>
           (m_instance_id m = iid \<longrightarrow>
              (\<exists>t. metas e' = (metas e)(iid \<mapsto> projected m actor s' t)))"
    if e3: "e3 = e2 \<or> e3 = put_meta e2 (m6\<lparr>m_status := z\<rparr>)" for e3 k stt dat payload z
  proof -
    let ?e4 = "append_event e3 iid k (Some nd) stt (Some actor) dat"
    have st3: "states e3 = (states e)(iid \<mapsto> s')" "events e3 = events e"
      "instances e3 = instances e" "eng_workflow_name e3 = eng_workflow_name e"
      using e3 by (auto simp: e2_def e1_def)
    show ?thesis
    proof (cases "m_instance_id m = iid")
      case True
      from e3 have "metas e3 iid = Some m6 \<or> metas e3 iid = Some (m6\<lparr>m_status := z\<rparr>)"
        using True by (auto simp: e2_def m6s)
      then obtain mm where mm: "metas ?e4 iid = Some mm" "mm = m6 \<or> mm = m6\<lparr>m_status := z\<rparr>"
        by auto
      have pr: "projected mm actor s' t = m6" for t
        using mm(2) projected_again[OF x ln] projected_again_same[OF x ln]
        by (auto simp: m6_def)
      have mk: "m_instance_id mm = iid" using mm(2) True by (auto simp: m6s)
      have me: "(metas e3)(iid \<mapsto> m6) = (metas e)(iid \<mapsto> m6)"
        using e3 True by (auto simp: e2_def e1_def m6s)
      from update_and_return_Some[OF mm(1), of actor payload s']
      obtain e' where e': "update_and_return ?e4 iid actor payload s' = (e', Inr payload)"
        "states e' = states ?e4" "events e' = events ?e4" "instances e' = instances ?e4"
        "eng_workflow_name e' = eng_workflow_name ?e4"
        "metas e' = (metas ?e4)(iid \<mapsto> m6)"
        unfolding pr mk by blast
      show ?thesis
        apply (rule exI[of _ e'])
        apply (rule exI[of _ "\<lparr>ev_ts = readings (clk e3) (tick (clk e3)), ev_instance_id = iid,
            ev_event = k, ev_node = Some nd, ev_status = stt, ev_actor = Some actor,
            ev_data = dat\<rparr>"])
        using e' st3 True me
        by (auto simp: history_def m6_def)
    next
      case False
      have "metas e3 iid = Some m" using e3 False m by (auto simp: e2_def e1_def m6s)
      then have mm: "metas ?e4 iid = Some m" by simp
      from update_and_return_Some[OF mm, of actor payload s']
      obtain e' where e': "update_and_return ?e4 iid actor payload s' = (e', Inr payload)"
        "states e' = states ?e4" "events e' = events ?e4" "instances e' = instances ?e4"
        "eng_workflow_name e' = eng_workflow_name ?e4"
        and me: "metas e' = (metas ?e4)(m_instance_id m \<mapsto>
                        projected m actor s' (readings (clk ?e4) (tick (clk ?e4))))"
        by blast
      have "metas e' iid \<noteq> None" unfolding me using mm by simp
      note e' = e' this
      show ?thesis
        apply (rule exI[of _ e'])
        apply (rule exI[of _ "\<lparr>ev_ts = readings (clk e3) (tick (clk e3)), ev_instance_id = iid,
            ev_event = k, ev_node = Some nd, ev_status = stt, ev_actor = Some actor,
            ev_data = dat\<rparr>"])
        using e' st3 False
        by (auto simp: history_def)
    qed
  qed
  show ?thesis
  proof (cases r)
    case (Interrupt p)
    have sk: "run_summary iid r s' = SPaused p iid" "outcome_kind r s' = ''paused''"
      using Interrupt by (simp_all add: run_summary_def outcome_kind_def)
    show ?thesis
    proof (cases "x \<noteq> ''completed'' \<and> x \<noteq> ''aborted''")
      case True
      have run: "run e iid st actor =
          update_and_return (append_event (put_meta e2 (m6\<lparr>m_status := ''paused''\<rparr>))
              iid ''paused'' (Some nd) ''paused'' (Some actor) (DPrompt p))
            iid actor (SPaused p iid) s'"
        using g Interrupt u1 dl True
        by (simp add: run_def Let_def e1_def[symmetric] m6s nd)
      show ?thesis unfolding run sk nd
        by (rule tail[where z = "''paused''"]) simp
    next
      case False
      have run: "run e iid st actor =
          update_and_return (append_event e2 iid ''paused'' (Some nd) x (Some actor) (DPrompt p))
            iid actor (SPaused p iid) s'"
        using g Interrupt u1 dl False
        by (auto simp: run_def Let_def e1_def[symmetric] m6s nd)
      show ?thesis unfolding run sk nd
        by (rule tail[where z = "''paused''"]) simp
    qed
  next
    case Returned
    consider (c) "x = ''completed''" | (a) "x = ''aborted''"
      | (p) "x \<noteq> ''completed''" "x \<noteq> ''aborted''" by blast
    then show ?thesis
    proof cases
      case c
      have sk: "run_summary iid r s' = SCompleted nd (bag_result s') iid"
        "outcome_kind r s' = ''completed''"
        using Returned c by (simp_all add: run_summary_def outcome_kind_def x nd)
      have run: "run e iid st actor =
          update_and_return (append_event (put_meta e2 (m6\<lparr>m_status := ''completed''\<rparr>))
              iid ''completed'' (Some nd) ''completed'' (Some actor) (DResult (bag_result s')))
            iid actor (SCompleted nd (bag_result s') iid) s'"
        using g Returned u1 dl c
        by (simp add: run_def Let_def e1_def[symmetric] m6s nd x)
      show ?thesis unfolding run sk nd
        by (rule tail[where z = "''completed''"]) simp
    next
      case a
      have sk: "run_summary iid r s' = SAborted nd (bag_result s') iid"
        "outcome_kind r s' = ''aborted''"
        using Returned a by (simp_all add: run_summary_def outcome_kind_def x nd)
      have run: "run e iid st actor =
          update_and_return (append_event (put_meta e2 (m6\<lparr>m_status := ''aborted''\<rparr>))
              iid ''aborted'' (Some nd) ''aborted'' (Some actor) (DResult (bag_result s')))
            iid actor (SAborted nd (bag_result s') iid) s'"
        using g Returned u1 dl a
        by (simp add: run_def Let_def e1_def[symmetric] m6s nd x)
      show ?thesis unfolding run sk nd
        by (rule tail[where z = "''aborted''"]) simp
    next
      case p
      have sk: "run_summary iid r s' = SInProgress nd iid"
        "outcome_kind r s' = ''progressed''"
        using Returned p by (simp_all add: run_summary_def outcome_kind_def x nd)
      have run: "run e iid st actor =
          update_and_return (append_event (put_meta e2 (m6\<lparr>m_status := ''in_progress''\<rparr>))
              iid ''progressed'' (Some nd) ''in_progress'' (Some actor) DEmpty)
            iid actor (SInProgress nd iid) s'"
        using g Returned u1 dl p
        by (simp add: run_def Let_def e1_def[symmetric] m6s nd x)
      show ?thesis unfolding run sk nd
        by (rule tail[where z = "''in_progress''"]) simp
    qed
  qed
qed

subsection \<open>The calls start and resume\<close>

lemma graph_invoke_no_validate:
  "bag s ''validate'' = None \<Longrightarrow>
   graph_invoke s c = (Interrupt ''Validate request? (yes/no)'', touched Validate_Request s c,
                       c\<lparr>tick := Suc (tick c)\<rparr>)"
  using step_guarded[of Validate_Request s c]
  by (simp add: graph_invoke_def run_from.simps[of Validate_Request] terminal_node_def)

lemma resume_None: "states e iid = None \<Longrightarrow> resume e iid actor updates = (e, Inl (NotFound iid))"
  by (simp add: resume_def)

lemma resume_result:
  assumes s: "states e iid = Some st0" and m: "metas e iid = Some m"
    and g: "graph_invoke (st0\<lparr>bag := bag st0 ++ updates\<rparr>) ((clk e)\<lparr>tick := Suc (tick (clk e))\<rparr>)
              = (r, s', c')"
  shows "\<exists>e' ev1 ev2. resume e iid actor updates = (e', Inr (run_summary iid r s')) \<and>
           states e' = (states e)(iid \<mapsto> s') \<and>
           events e' = (events e)(iid \<mapsto> history e iid @ [ev1, ev2]) \<and>
           ev_event ev1 = ''resume_command'' \<and>
           ev_event ev2 = outcome_kind r s' \<and> ev_instance_id ev2 = iid \<and>
           ev_node ev2 = last_node (meta s') \<and> ev_actor ev2 = Some actor \<and>
           instances e' = instances e \<and> eng_workflow_name e' = eng_workflow_name e \<and>
           metas e' iid \<noteq> None \<and>
           (m_instance_id m = iid \<longrightarrow>
              (\<exists>t. metas e' = (metas e)(iid \<mapsto> projected m actor s' t)))"
proof -
  let ?st = "st0\<lparr>bag := bag st0 ++ updates\<rparr>"
  let ?e2 = "append_event (e\<lparr>states := (states e)(iid \<mapsto> ?st)\<rparr>) iid ''resume_command''
               (last_node (meta ?st)) ''in_progress'' (Some actor) (DUpdates updates)"
  have r: "resume e iid actor updates = run ?e2 iid ?st actor"
    using s by (simp add: resume_def Let_def)
  have m2: "metas ?e2 iid = Some m" using m by simp
  have g2: "graph_invoke ?st (clk ?e2) = (r, s', c')" using g by simp
  from run_result[OF m2 g2, of actor]
  obtain e' ev where e': "run ?e2 iid ?st actor = (e', Inr (run_summary iid r s'))"
           "states e' = (states ?e2)(iid \<mapsto> s')"
           "events e' = (events ?e2)(iid \<mapsto> history ?e2 iid @ [ev])"
           "ev_event ev = outcome_kind r s'" "ev_instance_id ev = iid"
           "ev_node ev = last_node (meta s')" "ev_actor ev = Some actor"
           "instances e' = instances ?e2" "eng_workflow_name e' = eng_workflow_name ?e2"
           "metas e' iid \<noteq> None"
           "m_instance_id m = iid \<longrightarrow>
              (\<exists>t. metas e' = (metas ?e2)(iid \<mapsto> projected m actor s' t))"
    by blast
  show ?thesis
    apply (rule exI[of _ e'])
    apply (rule exI[of _ "\<lparr>ev_ts = readings (clk e) (tick (clk e)), ev_instance_id = iid,
          ev_event = ''resume_command'', ev_node = last_node (meta ?st),
          ev_status = ''in_progress'', ev_actor = Some actor, ev_data = DUpdates updates\<rparr>"])
    apply (rule exI[of _ ev])
    using e' unfolding r
    by (simp add: history_def)
qed

lemma resume_MissingMeta:
  assumes "states e iid = Some st0" "metas e iid = None"
  shows "snd (resume e iid actor updates) = Inl MissingMeta"
proof -
  let ?st = "st0\<lparr>bag := bag st0 ++ updates\<rparr>"
  obtain r s' c' where g: "graph_invoke ?st ((clk e)\<lparr>tick := Suc (tick (clk e))\<rparr>) = (r, s', c')"
    by (metis prod_cases3)
  then have "default_last_node s' = s'" using graph_invoke_post run_post_default by blast
  with g assms show ?thesis
    by (cases r) (simp_all add: resume_def run_def Let_def update_meta_from_state_unfold)
qed

lemma add_to_index_fields [simp]:
  "states (add_to_index e iid) = states e"
  "metas (add_to_index e iid) = metas e"
  "events (add_to_index e iid) = events e"
  "eng_workflow_name (add_to_index e iid) = eng_workflow_name e"
  "clk (add_to_index e iid) = clk e"
  "instances (add_to_index e iid) =
     Some (let idx = (case instances e of None \<Rightarrow> [] | Some l \<Rightarrow> l)
           in if iid \<in> set idx then idx else idx @ [iid])"
  by (auto simp: add_to_index_def Let_def split: option.splits)

lemma start_result:
  "\<exists>e' s' m' ev1 ev2 t.
     start e iid cust started_by = (e', Inr (iid, SPaused ''Validate request? (yes/no)'' iid)) \<and>
     states e' = (states e)(iid \<mapsto> s') \<and>
     bag s' = Map.empty \<and> status (meta s') = Some ''in_progress'' \<and>
     last_node (meta s') = Some ''Validate Request'' \<and>
     metas e' = (metas e)(iid \<mapsto> m') \<and>
     m_instance_id m' = iid \<and> m_customer_id m' = cust \<and>
     m_workflow_name m' = eng_workflow_name e \<and> m_started_by m' = started_by \<and>
     m_status m' = ''in_progress'' \<and> m_last_node m' = Some ''Validate Request'' \<and>
     steps_history m' = [\<lparr>h_ts = t, h_node = ''Validate Request'', h_actor = started_by,
                           h_status = ''in_progress''\<rparr>] \<and>
     events e' = (events e)(iid \<mapsto> history e iid @ [ev1, ev2]) \<and>
     ev_event ev1 = ''created'' \<and> ev_event ev2 = ''paused'' \<and>
     instances e' = instances (add_to_index e iid) \<and>
     eng_workflow_name e' = eng_workflow_name e"
proof -
  define t0 where "t0 = readings (clk e) (tick (clk e))"
  define st where "st = \<lparr>instance_id = iid, customer_id = cust,
      workflow_name = eng_workflow_name e, bag = Map.empty,
      meta = \<lparr>status = Some ''in_progress'', last_node = None,
               start_time = Some t0, end_time = None\<rparr>\<rparr>"
  define m where "m = \<lparr>m_instance_id = iid, m_customer_id = cust,
      m_workflow_name = eng_workflow_name e, m_started_by = started_by,
      m_last_actor = Some started_by, m_status = ''in_progress'',
      m_last_node = None, m_start_time = Some t0, m_end_time = None,
      steps_history = []\<rparr>"
  define e4 where "e4 = append_event (add_to_index (put_meta
      (e\<lparr>clk := (clk e)\<lparr>tick := Suc (tick (clk e))\<rparr>, states := (states e)(iid \<mapsto> st)\<rparr>) m) iid)
      iid ''created'' None ''in_progress'' (Some started_by) (DCustomer cust)"
  have st: "start e iid cust started_by =
      (case run e4 iid st started_by of (e5, Inl err) \<Rightarrow> (e5, Inl err)
       | (e5, Inr sm) \<Rightarrow> (e5, Inr (iid, sm)))"
    by (simp add: start_def Let_def now_iso_def e4_def st_def m_def t0_def)
  define s' where "s' = touched Validate_Request st (clk e4)"
  have g: "graph_invoke st (clk e4) =
      (Interrupt ''Validate request? (yes/no)'', s', (clk e4)\<lparr>tick := Suc (tick (clk e4))\<rparr>)"
    unfolding s'_def by (rule graph_invoke_no_validate) (simp add: st_def)
  have m4: "metas e4 iid = Some m" "m_instance_id m = iid"
    by (simp_all add: e4_def m_def)
  from run_result[OF m4(1) g, of started_by] m4(2)
  obtain e' ev t where e': "run e4 iid st started_by =
        (e', Inr (run_summary iid (Interrupt ''Validate request? (yes/no)'') s'))"
      "states e' = (states e4)(iid \<mapsto> s')"
      "events e' = (events e4)(iid \<mapsto> history e4 iid @ [ev])"
      "ev_event ev = outcome_kind (Interrupt ''Validate request? (yes/no)'') s'"
      "instances e' = instances e4" "eng_workflow_name e' = eng_workflow_name e4"
      "metas e' = (metas e4)(iid \<mapsto> projected m started_by s' t)"
    by blast
  have ap: "appends m s'" by (simp add: appends_def m_def s'_def touched_def)
  show ?thesis
    apply (rule exI[of _ e'])
    apply (rule exI[of _ s'])
    apply (rule exI[of _ "projected m started_by s' t"])
    apply (rule exI[of _ "\<lparr>ev_ts = readings (clk e) (Suc (tick (clk e))), ev_instance_id = iid,
          ev_event = ''created'', ev_node = None, ev_status = ''in_progress'',
          ev_actor = Some started_by, ev_data = DCustomer cust\<rparr>"])
    apply (rule exI[of _ ev])
    apply (rule exI[of _ t])
    using e' ap unfolding st
    by (simp add: run_summary_def outcome_kind_def e4_def history_def new_entry_def
          s'_def touched_def st_def m_def dflt_status_def)
qed

lemma outcome_kind_cases:
  "outcome_kind r s \<in> {''paused'', ''progressed'', ''completed'', ''aborted''}"
  by (cases r) (simp_all add: outcome_kind_def)

lemma resume_Inr_has_state_and_meta:
  assumes "resume e iid actor updates = (e', Inr sm)"
  shows "\<exists>st0 m. states e iid = Some st0 \<and> metas e iid = Some m"
proof (cases "states e iid")
  case None
  with assms show ?thesis by (simp add: resume_None)
next
  case (Some st0)
  show ?thesis
  proof (cases "metas e iid")
    case None
    from resume_MissingMeta[OF Some None, of actor updates] assms show ?thesis by simp
  next
    case (Some m)
    with \<open>states e iid = Some st0\<close> show ?thesis by simp
  qed
qed

subsection \<open>Routes through the graph\<close>

lemma edge_Interrupt [simp]: "edge n (Interrupt p) s = None"
  by (cases n) simp_all

lemma touched_fields [simp]:
  "bag (touched n s c) = bag s"
  "instance_id (touched n s c) = instance_id s"
  "status (meta (touched n s c)) = Some (dflt_status (status (meta s)))"
  "last_node (meta (touched n s c)) = Some (node_name n)"
  by (simp_all add: touched_def)

lemma run_from_guarded:
  "\<not> terminal_node n \<Longrightarrow>
   run_from n s c =
     (if bag s (required_key n) = None
      then (Interrupt (prompt_of n), touched n s c, c\<lparr>tick := Suc (tick c)\<rparr>)
      else case edge n Returned (touched n s c) of
             None \<Rightarrow> (Returned, touched n s c, c\<lparr>tick := Suc (tick c)\<rparr>)
           | Some n' \<Rightarrow> run_from n' (touched n s c) (c\<lparr>tick := Suc (tick c)\<rparr>))"
  by (subst run_from.simps) (simp add: step_guarded del: step.simps edge.simps)

lemma run_from_terminal:
  "terminal_node n \<Longrightarrow>
   run_from n s c = (Returned,
      (touched n s c)\<lparr>meta := (meta (touched n s c))\<lparr>status := Some (final_status n),
             end_time := Some (readings c (Suc (tick c)))\<rparr>,
         bag := (bag s)(''result'' \<mapsto> VStr (final_result n))\<rparr>,
      c\<lparr>tick := Suc (Suc (tick c))\<rparr>)"
  by (subst run_from.simps) (simp add: edge_terminal step_terminal del: step.simps edge.simps)

lemma resume_summary:
  assumes "states e iid = Some st0" "metas e iid \<noteq> None"
    and "graph_invoke (st0\<lparr>bag := bag st0 ++ updates\<rparr>) ((clk e)\<lparr>tick := Suc (tick (clk e))\<rparr>)
              = (r, s', c')"
  shows "\<exists>e'. resume e iid actor updates = (e', Inr (run_summary iid r s')) \<and>
           states e' iid = Some s' \<and> metas e' iid \<noteq> None"
proof -
  from assms(2) obtain m where m: "metas e iid = Some m" by auto
  from resume_result[OF assms(1) m assms(3), of actor] show ?thesis by auto
qed

text \<open>The routes of the cancel scenario.\<close>

lemma route_gather:
  assumes "bag s ''validate'' = Some (VStr ''yes'')" "bag s ''claim_details'' = None"
  shows "\<exists>s' c'. graph_invoke s c = (Interrupt ''Provide claim details'', s', c') \<and>
     bag s' = bag s \<and> status (meta s') = Some (dflt_status (status (meta s)))"
  using assms
  by (simp add: graph_invoke_def run_from_guarded terminal_node_def)

lemma route_identify:
  assumes "bag s ''validate'' = Some (VStr ''yes'')" "bag s ''claim_details'' = Some (VStr ''x'')"
    "bag s ''process_decision'' = None"
  shows "\<exists>s' c'. graph_invoke s c = (Interrupt ''Decision? cancel / hold / suppress'', s', c') \<and>
     bag s' = bag s \<and> status (meta s') = Some (dflt_status (status (meta s)))"
  using assms
  by (simp add: graph_invoke_def run_from_guarded terminal_node_def)

lemma route_cancel:
  assumes "bag s ''validate'' = Some (VStr ''yes'')" "bag s ''claim_details'' = Some (VStr ''x'')"
    "bag s ''process_decision'' = Some (VStr ''cancel'')"
  shows "\<exists>s' c'. graph_invoke s c = (Returned, s', c') \<and>
     bag s' = (bag s)(''result'' \<mapsto> VStr ''Workflow aborted.'') \<and>
     status (meta s') = Some ''aborted'' \<and>
     last_node (meta s') = Some ''Cancel CWD Request''"
  using assms
  by (simp add: graph_invoke_def run_from_guarded run_from_terminal terminal_node_def)

subsection \<open>Listing\<close>

lemma collect_filter:
  "collect e cust st started_by wname ids =
     filter (keeps cust st started_by wname) (List.map_filter (metas e) ids)"
  by (induction ids) (simp_all add: List.map_filter_def get_meta_def split: option.splits)

lemma mset_sort_reverse [simp]: "mset (sort_reverse f xs) = mset xs"
  by (simp add: sort_reverse_def)

lemma sorted_sort_reverse: "sorted (rev (map f (sort_reverse f xs)))"
  by (simp add: sort_reverse_def rev_map)

lemma sort_reverse_stable:
  "filter (\<lambda>y. f y = k) (sort_reverse f xs) = filter (\<lambda>y. f y = k) xs"
  by (simp add: sort_reverse_def rev_filter[symmetric] sort_key_stable)

lemma sort_ts_empty: "sort_ts x = [] \<longleftrightarrow> steps_history x = [] \<or> h_ts (last (steps_history x)) = []"
  by (simp add: sort_ts_def)

subsection \<open>The invariant of reachable engines\<close>

lemma engine_invI:
  assumes "\<And>iid m. metas e iid = Some m \<Longrightarrow>
             m_instance_id m = iid \<and> distinct_adj (map h_node (steps_history m))"
    and "\<And>iid st. states e iid = Some st \<Longrightarrow>
             \<exists>m. metas e iid = Some m \<and> status (meta st) = Some (m_status m) \<and>
                 m_last_node m = last_node (meta st)"
    and "\<And>iid st c r s' c'. states e iid = Some st \<Longrightarrow> graph_invoke st c = (r, s', c') \<Longrightarrow>
            bag s' = bag st \<and> last_node (meta s') = last_node (meta st) \<and>
            status (meta s') = status (meta st) \<and> L iid = Some (run_summary iid r s')"
  shows "engine_inv e L"
  unfolding engine_inv_def using assms by blast

lemma engine_inv_meta:
  "engine_inv e L \<Longrightarrow> metas e iid = Some m \<Longrightarrow>
   m_instance_id m = iid \<and> distinct_adj (map h_node (steps_history m))"
  unfolding engine_inv_def by blast

lemma engine_inv_state:
  "engine_inv e L \<Longrightarrow> states e iid = Some st \<Longrightarrow>
   \<exists>m. metas e iid = Some m \<and> status (meta st) = Some (m_status m) \<and>
       m_last_node m = last_node (meta st)"
  unfolding engine_inv_def by blast

lemma engine_inv_settled:
  "engine_inv e L \<Longrightarrow> states e iid = Some st \<Longrightarrow> graph_invoke st c = (r, s', c') \<Longrightarrow>
   bag s' = bag st \<and> last_node (meta s') = last_node (meta st) \<and>
   status (meta s') = status (meta st) \<and> L iid = Some (run_summary iid r s')"
  unfolding engine_inv_def by blast

lemma engine_inv_new: "engine_inv (new_engine wname c) Map.empty"
  by (simp add: engine_inv_def new_engine_def)

lemma run_summary_cong:
  "bag s2 = bag s1 \<Longrightarrow> last_node (meta s2) = last_node (meta s1) \<Longrightarrow>
   status (meta s2) = status (meta s1) \<Longrightarrow> run_summary iid r s2 = run_summary iid r s1"
  by (cases r) (simp_all add: run_summary_def bag_result_def)

lemma distinct_adj_projected:
  assumes "distinct_adj (map h_node (steps_history m))"
  shows "distinct_adj (map h_node (steps_history (projected m actor s t)))"
  using assms
  by (auto simp: distinct_adj_append_iff appends_def new_entry_def last_map)

lemma settled_after_invoke:
  assumes g: "graph_invoke st c = (r, s', c')" and g2: "graph_invoke s' d = (r2, s2, d2)"
  shows "bag s2 = bag s' \<and> last_node (meta s2) = last_node (meta s') \<and>
         status (meta s2) = status (meta s') \<and>
         run_summary iid r s' = run_summary iid r2 s2"
proof -
  from graph_invoke_again[OF g g2]
  have a: "r2 = r" "bag s2 = bag s'" "last_node (meta s2) = last_node (meta s')"
    "status (meta s2) = status (meta s')" by blast+
  with run_summary_cong[OF a(2,3,4), of iid r] show ?thesis by simp
qed

lemma engine_inv_resume:
  assumes inv: "engine_inv e L" and ok: "resume e iid actor updates = (e', Inr sm)"
  shows "engine_inv e' (L(iid \<mapsto> sm))"
proof -
  from ok obtain st0 m where s: "states e iid = Some st0" and m: "metas e iid = Some m"
    using resume_Inr_has_state_and_meta by blast
  have mk: "m_instance_id m = iid" and md: "distinct_adj (map h_node (steps_history m))"
    using engine_inv_meta[OF inv m] by simp_all
  obtain r s' c' where g:
    "graph_invoke (st0\<lparr>bag := bag st0 ++ updates\<rparr>) ((clk e)\<lparr>tick := Suc (tick (clk e))\<rparr>)
       = (r, s', c')"
    by (metis prod_cases3)
  from resume_result[OF s m g, of actor] ok mk
  obtain t where sm: "sm = run_summary iid r s'"
    and st: "states e' = (states e)(iid \<mapsto> s')"
    and me: "metas e' = (metas e)(iid \<mapsto> projected m actor s' t)"
    by auto
  obtain x where x: "status (meta s') = Some x"
    using graph_invoke_post[OF g] run_post_status by blast
  show ?thesis
  proof (rule engine_invI)
    fix j mj assume a: "metas e' j = Some mj"
    show "m_instance_id mj = j \<and> distinct_adj (map h_node (steps_history mj))"
    proof (cases "j = iid")
      case True
      with a me have "mj = projected m actor s' t" by simp
      then show ?thesis using mk md True distinct_adj_projected[OF md] by simp
    next
      case False
      with a me have "metas e j = Some mj" by simp
      with inv show ?thesis by (rule engine_inv_meta)
    qed
  next
    fix j stj assume a: "states e' j = Some stj"
    show "\<exists>mj. metas e' j = Some mj \<and> status (meta stj) = Some (m_status mj) \<and>
            m_last_node mj = last_node (meta stj)"
    proof (cases "j = iid")
      case True
      with a st have "stj = s'" by simp
      then show ?thesis
        using me True x run_post_last_node[OF graph_invoke_post[OF g]] by simp
    next
      case False
      with a st have "states e j = Some stj" by simp
      with inv have "\<exists>mj. metas e j = Some mj \<and> status (meta stj) = Some (m_status mj) \<and>
            m_last_node mj = last_node (meta stj)"
        by (rule engine_inv_state)
      with me False show ?thesis by simp
    qed
  next
    fix j stj c1 r1 s1 c1' assume a: "states e' j = Some stj"
      and g1: "graph_invoke stj c1 = (r1, s1, c1')"
    show "bag s1 = bag stj \<and> last_node (meta s1) = last_node (meta stj) \<and>
            status (meta s1) = status (meta stj) \<and>
            (L(iid \<mapsto> sm)) j = Some (run_summary j r1 s1)"
    proof (cases "j = iid")
      case True
      with a st have "stj = s'" by simp
      with a st g1 have "graph_invoke s' c1 = (r1, s1, c1')" by simp
      from settled_after_invoke[OF g this, of iid] \<open>stj = s'\<close> True sm show ?thesis by simp
    next
      case False
      with a st have "states e j = Some stj" by simp
      from engine_inv_settled[OF inv this g1] False show ?thesis by simp
    qed
  qed
qed

lemma engine_inv_start:
  assumes inv: "engine_inv e L" and ok: "start e iid cust started_by = (e', Inr (iid, sm))"
  shows "engine_inv e' (L(iid \<mapsto> sm))"
proof -
  from start_result[of e iid cust started_by] ok
  obtain s' m' t where sm: "sm = SPaused ''Validate request? (yes/no)'' iid"
    and st: "states e' = (states e)(iid \<mapsto> s')"
    and s': "bag s' = Map.empty" "status (meta s') = Some ''in_progress''"
      "last_node (meta s') = Some ''Validate Request''"
    and me: "metas e' = (metas e)(iid \<mapsto> m')"
    and m': "m_instance_id m' = iid" "m_status m' = ''in_progress''"
      "m_last_node m' = Some ''Validate Request''"
      "steps_history m' = [\<lparr>h_ts = t, h_node = ''Validate Request'', h_actor = started_by,
                           h_status = ''in_progress''\<rparr>]"
    by auto
  have g: "graph_invoke s' c = (Interrupt ''Validate request? (yes/no)'',
             touched Validate_Request s' c, c\<lparr>tick := Suc (tick c)\<rparr>)" for c
    by (rule graph_invoke_no_validate) (simp add: s')
  show ?thesis
  proof (rule engine_invI)
    fix j mj assume a: "metas e' j = Some mj"
    show "m_instance_id mj = j \<and> distinct_adj (map h_node (steps_history mj))"
    proof (cases "j = iid")
      case True
      with a me have "mj = m'" by simp
      then show ?thesis using m' True by simp
    next
      case False
      with a me have "metas e j = Some mj" by simp
      with inv show ?thesis by (rule engine_inv_meta)
    qed
  next
    fix j stj assume a: "states e' j = Some stj"
    show "\<exists>mj. metas e' j = Some mj \<and> status (meta stj) = Some (m_status mj) \<and>
            m_last_node mj = last_node (meta stj)"
    proof (cases "j = iid")
      case True
      with a st have "stj = s'" by simp
      then show ?thesis using me True s' m' by simp
    next
      case False
      with a st have "states e j = Some stj" by simp
      with inv have "\<exists>mj. metas e j = Some mj \<and> status (meta stj) = Some (m_status mj) \<and>
            m_last_node mj = last_node (meta stj)"
        by (rule engine_inv_state)
      with me False show ?thesis by simp
    qed
  next
    fix j stj c1 r1 s1 c1' assume a: "states e' j = Some stj"
      and g1: "graph_invoke stj c1 = (r1, s1, c1')"
    show "bag s1 = bag stj \<and> last_node (meta s1) = last_node (meta stj) \<and>
            status (meta s1) = status (meta stj) \<and>
            (L(iid \<mapsto> sm)) j = Some (run_summary j r1 s1)"
    proof (cases "j = iid")
      case True
      with a st have "stj = s'" by simp
      with g[of c1] g1 True sm s' show ?thesis
        by (auto simp: run_summary_def dflt_status_def)
    next
      case False
      with a st have "states e j = Some stj" by simp
      from engine_inv_settled[OF inv this g1] False show ?thesis by simp
    qed
  qed
qed

lemma resume_failed_unchanged:
  assumes inv: "engine_inv e L" and f: "resume e iid actor updates = (e', Inl err)"
  shows "e' = e"
proof (cases "states e iid")
  case None
  with f show ?thesis by (simp add: resume_None)
next
  case (Some st0)
  with engine_inv_state[OF inv] obtain m where m: "metas e iid = Some m" by blast
  obtain r s' c' where g:
    "graph_invoke (st0\<lparr>bag := bag st0 ++ updates\<rparr>) ((clk e)\<lparr>tick := Suc (tick (clk e))\<rparr>)
       = (r, s', c')"
    by (metis prod_cases3)
  from resume_result[OF Some m g, of actor] f show ?thesis by auto
qed

lemma engine_inv_call:
  assumes "call (e, L) (e', L')" "engine_inv e L"
  shows "engine_inv e' L'"
  using assms
proof (cases rule: call.cases)
  case (call_start iid cust started_by sm)
  then show ?thesis using engine_inv_start assms(2) by simp
next
  case (call_resume iid actor updates sm)
  then show ?thesis using engine_inv_resume assms(2) by simp
next
  case (call_failed iid actor updates err)
  with resume_failed_unchanged[OF assms(2)] have "e' = e" "L' = L" by simp_all
  with assms(2) show ?thesis by simp
qed

lemma engine_inv_calls:
  assumes "call\<^sup>*\<^sup>* (e, L) (e', L')" "engine_inv e L"
  shows "engine_inv e' L'"
  using assms
  by (induction "(e, L)" "(e', L')" arbitrary: e' L' rule: rtranclp.induct)
     (auto intro: engine_inv_call)

lemma reachable_inv: "reachable e L \<Longrightarrow> engine_inv e L"
  unfolding reachable_def using engine_inv_calls engine_inv_new by blast

lemma reachable_calls: "reachable e L \<Longrightarrow> call\<^sup>*\<^sup>* (e, L) (e', L') \<Longrightarrow> reachable e' L'"
  unfolding reachable_def by (meson rtranclp_trans)

lemma reachable_new: "reachable (new_engine wname c) Map.empty"
  unfolding reachable_def by blast

lemma reachable_call: "reachable e L \<Longrightarrow> call (e, L) (e', L') \<Longrightarrow> reachable e' L'"
  by (rule reachable_calls) auto

lemma fresh_new [simp]: "fresh (new_engine wname c) iid"
  by (simp add: fresh_def new_engine_def)

text \<open>A successful call on an engine that satisfies the invariant, with what it leaves.\<close>

lemma resume_step:
  assumes inv: "engine_inv e L" and s: "states e iid = Some st0"
    and g: "graph_invoke (st0\<lparr>bag := bag st0 ++ updates\<rparr>) ((clk e)\<lparr>tick := Suc (tick (clk e))\<rparr>)
              = (r, s', c')"
  shows "\<exists>e' m m' t ev1 ev2.
           resume e iid actor updates = (e', Inr (run_summary iid r s')) \<and>
           states e' = (states e)(iid \<mapsto> s') \<and>
           metas e iid = Some m \<and> m' = projected m actor s' t \<and>
           metas e' = (metas e)(iid \<mapsto> m') \<and>
           status (meta s') = Some (m_status m') \<and>
           events e' = (events e)(iid \<mapsto> history e iid @ [ev1, ev2]) \<and>
           ev_event ev1 = ''resume_command'' \<and> ev_event ev2 = outcome_kind r s' \<and>
           instances e' = instances e"
proof -
  from engine_inv_state[OF inv s] obtain m where m: "metas e iid = Some m" by blast
  have mk: "m_instance_id m = iid" using engine_inv_meta[OF inv m] by simp
  obtain x where x: "status (meta s') = Some x"
    using graph_invoke_post[OF g] run_post_status by blast
  from resume_result[OF s m g, of actor] mk
  obtain e' ev1 ev2 t where "resume e iid actor updates = (e', Inr (run_summary iid r s'))"
    "states e' = (states e)(iid \<mapsto> s')"
    "events e' = (events e)(iid \<mapsto> history e iid @ [ev1, ev2])"
    "ev_event ev1 = ''resume_command''" "ev_event ev2 = outcome_kind r s'"
    "instances e' = instances e"
    "metas e' = (metas e)(iid \<mapsto> projected m actor s' t)"
    by auto
  with m x show ?thesis
    by (intro exI[of _ e'] exI[of _ m] exI[of _ "projected m actor s' t"] exI[of _ t]
          exI[of _ ev1] exI[of _ ev2]) simp
qed

lemma projected_history_extends:
  "\<exists>ys. steps_history (projected m actor s t) = steps_history m @ ys"
  by simp

lemma call_history_extends:
  assumes inv: "engine_inv e L" and c: "call (e, L) (e', L')" and m: "metas e iid = Some m"
  shows "\<exists>m' ys. metas e' iid = Some m' \<and> steps_history m' = steps_history m @ ys"
  using c
proof (cases rule: call.cases)
  case (call_start j cust started_by sm)
  from start_result[of e j cust started_by] call_start(3)
  obtain mj where me: "metas e' = (metas e)(j \<mapsto> mj)" by auto
  have "j \<noteq> iid" using call_start(2) m by (auto simp: fresh_def)
  with me m show ?thesis by simp
next
  case (call_resume j actor updates sm)
  from call_resume(2) obtain st0 where s: "states e j = Some st0"
    using resume_Inr_has_state_and_meta by blast
  obtain r s' c' where g:
    "graph_invoke (st0\<lparr>bag := bag st0 ++ updates\<rparr>) ((clk e)\<lparr>tick := Suc (tick (clk e))\<rparr>)
       = (r, s', c')"
    by (metis prod_cases3)
  from resume_step[OF inv s g, of actor] call_resume(2)
  obtain mj t where mj: "metas e j = Some mj"
    and me: "metas e' = (metas e)(j \<mapsto> projected mj actor s' t)"
    by auto
  show ?thesis
  proof (cases "j = iid")
    case True
    with mj m have "mj = m" by simp
    with me True show ?thesis by simp
  next
    case False
    with me m show ?thesis by simp
  qed
next
  case (call_failed j actor updates err)
  with resume_failed_unchanged[OF inv] have "e' = e" by simp
  with m show ?thesis by simp
qed

lemma calls_history_extends:
  assumes "call\<^sup>*\<^sup>* (e, L) (e', L')" "engine_inv e L" "metas e iid = Some m"
  shows "\<exists>m' ys. metas e' iid = Some m' \<and> steps_history m' = steps_history m @ ys"
  using assms
proof (induction "(e, L)" "(e', L')" arbitrary: e' L' rule: rtranclp.induct)
  case rtrancl_refl
  then show ?case by simp
next
  case (rtrancl_into_rtrancl b)
  obtain e1 L1 where b: "b = (e1, L1)" by (cases b)
  from rtrancl_into_rtrancl(2)[OF b rtrancl_into_rtrancl(4,5)]
  obtain m1 ys where m1: "metas e1 iid = Some m1" "steps_history m1 = steps_history m @ ys"
    by blast
  have inv1: "engine_inv e1 L1"
    using engine_inv_calls rtrancl_into_rtrancl(1,4) b by blast
  from call_history_extends[OF inv1 _ m1(1)] rtrancl_into_rtrancl(3) b
  obtain m' zs where "metas e' iid = Some m'" "steps_history m' = steps_history m1 @ zs"
    by blast
  with m1 show ?case by simp
qed

lemma route_no:
  assumes "bag s ''validate'' = Some (VStr ''no'')"
  shows "\<exists>s' c'. graph_invoke s c = (Returned, s', c') \<and>
     bag s' = (bag s)(''result'' \<mapsto> VStr ''Workflow aborted.'') \<and>
     status (meta s') = Some ''aborted'' \<and>
     last_node (meta s') = Some ''Cancel CWD Request''"
  using assms
  by (simp add: graph_invoke_def run_from_guarded run_from_terminal terminal_node_def)

lemma route_fulfill:
  assumes "bag s ''validate'' = Some (VStr ''yes'')" "bag s ''claim_details'' = Some (VStr ''x'')"
    "bag s ''process_decision'' = Some (VStr ''suppress'')"
    "bag s ''proceed_fulfill'' = Some (VStr ''yes'')"
  shows "\<exists>s' c'. graph_invoke s c = (Returned, s', c') \<and>
     status (meta s') = Some ''completed'' \<and>
     last_node (meta s') = Some ''Fulfill Case and Detect''"
  using assms
  by (simp add: graph_invoke_def run_from_guarded run_from_terminal terminal_node_def)

lemma route_maybe:
  assumes "bag s ''validate'' = Some (VStr ''maybe'')"
  shows "\<exists>s' c'. graph_invoke s c = (Returned, s', c') \<and> bag s' = bag s \<and>
     status (meta s') = Some (dflt_status (status (meta s))) \<and>
     last_node (meta s') = Some ''Validate Request''"
  using assms
  by (simp add: graph_invoke_def run_from_guarded terminal_node_def)

lemma demo_started_facts:
  "\<exists>s1 L1. engine_inv demo_started L1 \<and> reachable demo_started L1 \<and>
     states demo_started ''i1'' = Some s1 \<and>
     bag s1 = Map.empty \<and> status (meta s1) = Some ''in_progress'' \<and>
     map ev_event (history demo_started ''i1'') = [''created'', ''paused'']"
proof -
  from start_result[of demo_engine "''i1''" "''C1''" "''u1''"]
  obtain e1 s1 ev1 ev2 where
    c1: "start demo_engine ''i1'' ''C1'' ''u1'' =
           (e1, Inr (''i1'', SPaused ''Validate request? (yes/no)'' ''i1''))"
    and s1: "states e1 = (states demo_engine)(''i1'' \<mapsto> s1)" "bag s1 = Map.empty"
      "status (meta s1) = Some ''in_progress''"
    and ev: "events e1 = (events demo_engine)(''i1'' \<mapsto> history demo_engine ''i1'' @ [ev1, ev2])"
      "ev_event ev1 = ''created''" "ev_event ev2 = ''paused''"
    by blast
  let ?L1 = "[''i1'' \<mapsto> SPaused ''Validate request? (yes/no)'' ''i1'']"
  have e1: "demo_started = e1" by (simp add: demo_started_def c1)
  have "call (demo_engine, Map.empty) (e1, ?L1)"
    using call_start[OF _ c1, of Map.empty] by (simp add: demo_engine_def)
  then have r1: "reachable e1 ?L1"
    using reachable_call[OF reachable_new] by (simp add: demo_engine_def)
  have h: "map ev_event (history e1 ''i1'') = [''created'', ''paused'']"
    using ev by (simp add: history_def demo_engine_def new_engine_def)
  show ?thesis unfolding e1
    using r1 reachable_inv[OF r1] s1 h by (intro exI[of _ s1] exI[of _ ?L1]) simp
qed

lemma demo_aborted_facts:
  "\<exists>s2 m2 L2. engine_inv demo_aborted L2 \<and> reachable demo_aborted L2 \<and>
     states demo_aborted ''i1'' = Some s2 \<and>
     bag s2 = [''validate'' \<mapsto> VStr ''no'', ''result'' \<mapsto> VStr ''Workflow aborted.''] \<and>
     status (meta s2) = Some ''aborted'' \<and>
     metas demo_aborted ''i1'' = Some m2 \<and> m_status m2 = ''aborted'' \<and>
     map ev_event (history demo_aborted ''i1'') =
       [''created'', ''paused'', ''resume_command'', ''aborted'']"
proof -
  from demo_started_facts obtain s1 L1 where
    inv1: "engine_inv demo_started L1" and r1: "reachable demo_started L1"
    and s1: "states demo_started ''i1'' = Some s1" "bag s1 = Map.empty"
    and h1: "map ev_event (history demo_started ''i1'') = [''created'', ''paused'']"
    by (elim exE conjE)
  let ?st = "s1\<lparr>bag := bag s1 ++ [''validate'' \<mapsto> VStr ''no'']\<rparr>"
  let ?c = "(clk demo_started)\<lparr>tick := Suc (tick (clk demo_started))\<rparr>"
  from route_no[of ?st ?c]
  obtain s2 c2 where g: "graph_invoke ?st ?c = (Returned, s2, c2)"
    and s2: "bag s2 = [''validate'' \<mapsto> VStr ''no'', ''result'' \<mapsto> VStr ''Workflow aborted.'']"
      "status (meta s2) = Some ''aborted''"
    using s1 by auto
  from resume_step[OF inv1 s1(1) g, of "''u2''"]
  obtain e2 m2 ev1 ev2 where
    c2: "resume demo_started ''i1'' ''u2'' [''validate'' \<mapsto> VStr ''no''] =
           (e2, Inr (run_summary ''i1'' Returned s2))"
    and e2: "states e2 = (states demo_started)(''i1'' \<mapsto> s2)"
      "metas e2 = (metas demo_started)(''i1'' \<mapsto> m2)"
      "status (meta s2) = Some (m_status m2)"
      "events e2 = (events demo_started)(''i1'' \<mapsto> history demo_started ''i1'' @ [ev1, ev2])"
      "ev_event ev1 = ''resume_command''" "ev_event ev2 = outcome_kind Returned s2"
    by blast
  have eq: "demo_aborted = e2" by (simp add: demo_aborted_def c2)
  have r2: "reachable e2 (L1(''i1'' \<mapsto> run_summary ''i1'' Returned s2))"
    using reachable_call[OF r1 call_resume[OF c2]] .
  have h: "map ev_event (history e2 ''i1'') =
       [''created'', ''paused'', ''resume_command'', ''aborted'']"
    using e2 h1 s2 by (simp add: history_def outcome_kind_def)
  show ?thesis unfolding eq
    using r2 reachable_inv[OF r2] e2 s2 h
    by (intro exI[of _ s2] exI[of _ m2] exI[of _ "L1(''i1'' \<mapsto> run_summary ''i1'' Returned s2)"])
       simp
qed

subsection \<open>Terminal statuses and events\<close>

lemma final_status_cases: "final_status n = ''completed'' \<or> final_status n = ''aborted''"
  by (cases n) simp_all

lemma run_post_terminal_stays:
  assumes "run_post s r s'" "status (meta s) = Some x" "x = ''completed'' \<or> x = ''aborted''"
  shows "\<exists>y. status (meta s') = Some y \<and> (y = ''completed'' \<or> y = ''aborted'')"
proof -
  from assms(1) obtain n where
    "if terminal_node n
          then r = Returned \<and> status (meta s') = Some (final_status n) \<and>
               bag s' = (bag s)(''result'' \<mapsto> VStr (final_result n))
          else bag s' = bag s \<and> status (meta s') = Some (dflt_status (status (meta s))) \<and>
               (r = Returned \<or> r = Interrupt (prompt_of n) \<and> bag s (required_key n) = None) \<and>
               (r = Returned \<longrightarrow> bag s (required_key n) \<noteq> None \<and> edge n Returned s' = None)"
    unfolding run_post_def by blast
  then have n: "if terminal_node n then status (meta s') = Some (final_status n)
        else status (meta s') = Some (dflt_status (status (meta s)))"
    by (simp split: if_splits)
  show ?thesis
  proof (cases "terminal_node n")
    case True
    with n final_status_cases[of n] show ?thesis by auto
  next
    case False
    with n assms(2,3) show ?thesis by (auto simp: dflt_status_def)
  qed
qed

lemma call_terminal:
  assumes inv: "engine_inv e L" and c: "call (e, L) (e', L')" and m: "metas e iid = Some m"
    and t: "m_status m = ''completed'' \<or> m_status m = ''aborted''"
  shows "\<exists>m'. metas e' iid = Some m' \<and> (m_status m' = ''completed'' \<or> m_status m' = ''aborted'')"
  using c
proof (cases rule: call.cases)
  case (call_start j cust started_by sm)
  from start_result[of e j cust started_by] call_start(3)
  obtain mj where me: "metas e' = (metas e)(j \<mapsto> mj)" by auto
  have "j \<noteq> iid" using call_start(2) m by (auto simp: fresh_def)
  with me m t show ?thesis by simp
next
  case (call_resume j actor updates sm)
  from call_resume(2) obtain st0 where s: "states e j = Some st0"
    using resume_Inr_has_state_and_meta by blast
  obtain r s' c' where g:
    "graph_invoke (st0\<lparr>bag := bag st0 ++ updates\<rparr>) ((clk e)\<lparr>tick := Suc (tick (clk e))\<rparr>)
       = (r, s', c')"
    by (metis prod_cases3)
  from resume_step[OF inv s g, of actor] call_resume(2)
  obtain mj where me: "metas e' = (metas e)(j \<mapsto> mj)"
    and mj: "status (meta s') = Some (m_status mj)"
    by auto
  show ?thesis
  proof (cases "j = iid")
    case True
    from engine_inv_state[OF inv s] m True have "status (meta st0) = Some (m_status m)" by simp
    then have "status (meta (st0\<lparr>bag := bag st0 ++ updates\<rparr>)) = Some (m_status m)" by simp
    from run_post_terminal_stays[OF graph_invoke_post[OF g] this t] mj me True
    show ?thesis by simp
  next
    case False
    with me m t show ?thesis by simp
  qed
next
  case (call_failed j actor updates err)
  with resume_failed_unchanged[OF inv] have "e' = e" by simp
  with m t show ?thesis by simp
qed

lemma calls_terminal:
  assumes "call\<^sup>*\<^sup>* (e, L) (e', L')" "engine_inv e L" "metas e iid = Some m"
    "m_status m = ''completed'' \<or> m_status m = ''aborted''"
  shows "\<exists>m'. metas e' iid = Some m' \<and> (m_status m' = ''completed'' \<or> m_status m' = ''aborted'')"
  using assms
proof (induction "(e, L)" "(e', L')" arbitrary: e' L' rule: rtranclp.induct)
  case rtrancl_refl
  then show ?case by simp
next
  case (rtrancl_into_rtrancl b)
  obtain e1 L1 where b: "b = (e1, L1)" by (cases b)
  from rtrancl_into_rtrancl(2)[OF b rtrancl_into_rtrancl(4,5,6)]
  obtain m1 where m1: "metas e1 iid = Some m1"
    "m_status m1 = ''completed'' \<or> m_status m1 = ''aborted''"
    by blast
  have inv1: "engine_inv e1 L1"
    using engine_inv_calls rtrancl_into_rtrancl(1,4) b by blast
  from call_terminal[OF inv1 _ m1] rtrancl_into_rtrancl(3) b
  show ?case by blast
qed

lemma resume_Inr_events:
  assumes ok: "resume e iid actor updates = (e', Inr sm)"
  shows "\<exists>ev1 ev2. events e' = (events e)(iid \<mapsto> history e iid @ [ev1, ev2]) \<and>
           ev_event ev1 = ''resume_command'' \<and>
           ev_event ev2 \<in> {''paused'', ''progressed'', ''completed'', ''aborted''}"
proof -
  from ok obtain st0 m where s: "states e iid = Some st0" and m: "metas e iid = Some m"
    using resume_Inr_has_state_and_meta by blast
  obtain r s' c' where g:
    "graph_invoke (st0\<lparr>bag := bag st0 ++ updates\<rparr>) ((clk e)\<lparr>tick := Suc (tick (clk e))\<rparr>)
       = (r, s', c')"
    by (metis prod_cases3)
  from resume_result[OF s m g, of actor] ok
  obtain ev1 ev2 where "events e' = (events e)(iid \<mapsto> history e iid @ [ev1, ev2])"
    "ev_event ev1 = ''resume_command''" "ev_event ev2 = outcome_kind r s'"
    by auto
  then show ?thesis
    using outcome_kind_cases[of r s'] by (intro exI[of _ ev1] exI[of _ ev2]) simp
qed

lemma call_terminal_events:
  assumes inv: "engine_inv e L" and c: "call (e, L) (e', L')"
  shows "length (filter terminal_event (history e' iid))
           \<le> Suc (length (filter terminal_event (history e iid)))"
  using c
proof (cases rule: call.cases)
  case (call_start j cust started_by sm)
  from start_result[of e j cust started_by] call_start(3)
  obtain ev1 ev2 where "events e' = (events e)(j \<mapsto> history e j @ [ev1, ev2])"
    "ev_event ev1 = ''created''" "ev_event ev2 = ''paused''" by auto
  then show ?thesis by (cases "j = iid") (simp_all add: history_def terminal_event_def)
next
  case (call_resume j actor updates sm)
  from resume_Inr_events[OF call_resume(2)]
  obtain ev1 ev2 where "events e' = (events e)(j \<mapsto> history e j @ [ev1, ev2])"
    "ev_event ev1 = ''resume_command''" by auto
  then show ?thesis by (cases "j = iid") (simp_all add: history_def terminal_event_def)
next
  case (call_failed j actor updates err)
  with resume_failed_unchanged[OF inv] have "e' = e" by simp
  then show ?thesis by simp
qed

subsection \<open>A guard that matches no value\<close>

lemma visits_run:
  "visits s n \<Longrightarrow>
   \<exists>t d. graph_invoke s c = run_from n t d \<and> bag t = bag s \<and>
         dflt_status (status (meta t)) = dflt_status (status (meta s))"
proof (induction rule: visits.induct)
  case (visits_entry s)
  show ?case unfolding graph_invoke_def by blast
next
  case (visits_edge s n n')
  then obtain t d where t: "graph_invoke s c = run_from n t d" "bag t = bag s"
    "dflt_status (status (meta t)) = dflt_status (status (meta s))"
    by blast
  have nt: "\<not> terminal_node n" using visits_edge(3) edge_Some_guarded by blast
  have ed: "edge n Returned (touched n t d) = Some n'"
    using edge_bag_cong[of "touched n t d" s n Returned] t(2) visits_edge(3) by simp
  have "run_from n t d = run_from n' (touched n t d) (d\<lparr>tick := Suc (tick d)\<rparr>)"
    using nt visits_edge(2) t(2) ed by (auto simp: run_from_guarded)
  with t show ?case
    by (intro exI[of _ "touched n t d"] exI[of _ "d\<lparr>tick := Suc (tick d)\<rparr>"]) simp
qed

lemma unmatched_stops:
  assumes "visits s n" "\<not> terminal_node n" "bag s (required_key n) \<noteq> None"
    "edge n Returned s = None"
  shows "\<exists>s' c'. graph_invoke s c = (Returned, s', c') \<and> bag s' = bag s \<and>
           last_node (meta s') = Some (node_name n) \<and>
           status (meta s') = Some (dflt_status (status (meta s)))"
proof -
  from visits_run[OF assms(1), of c]
  obtain t d where t: "graph_invoke s c = run_from n t d" "bag t = bag s"
    "dflt_status (status (meta t)) = dflt_status (status (meta s))"
    by blast
  have ed: "edge n Returned (touched n t d) = None"
    using edge_bag_cong[of "touched n t d" s n Returned] t(2) assms(4) by simp
  have "run_from n t d = (Returned, touched n t d, d\<lparr>tick := Suc (tick d)\<rparr>)"
    using assms(2,3) t(2) ed by (auto simp: run_from_guarded)
  with t show ?thesis by simp
qed


section \<open>The claims\<close>

text \<open>
  C1 (the code departs from the claim). The claim: when a run yields a Pause and the
  metadata status is not completed or aborted, the metadata stored at the end of the call
  has status \<open>paused\<close>, and the summary is \<open>{status: paused, prompt, instance_id}\<close>.
  The code: \<open>start\<close>, on any engine, pauses at Validate Request and returns that
  summary, but the metadata it leaves in the store has status \<open>in_progress\<close>, not
  \<open>paused\<close>: \<open>update_and_return\<close> projects the state once more after \<open>_run\<close> has
  stored \<open>paused\<close>, and the projection copies the state's own status over it.
\<close>

theorem start_pause_stores_in_progress:
  "\<exists>e' m'. start e iid cust started_by =
              (e', Inr (iid, SPaused ''Validate request? (yes/no)'' iid)) \<and>
           metas e' iid = Some m' \<and> m_status m' = ''in_progress'' \<and>
           m_status m' \<noteq> ''paused''"
proof -
  from start_result[of e iid cust started_by]
  obtain e' m' where "start e iid cust started_by =
              (e', Inr (iid, SPaused ''Validate request? (yes/no)'' iid))"
    "metas e' = (metas e)(iid \<mapsto> m')" "m_status m' = ''in_progress''"
    by blast
  then show ?thesis by simp
qed

text \<open>
  C2 (corrected). The claim: over any sequence of calls the event log holds at most one
  \<open>completed\<close> or \<open>aborted\<close> event, and a metadata status that is completed or aborted
  never changes again. The engine accepts \<open>resume\<close> on an instance that has ended and
  runs the graph again: after \<open>start\<close>, \<open>resume {validate: "no"}\<close> and \<open>resume {}\<close>
  the log holds two \<open>aborted\<close> events, and a \<open>resume\<close> of the aborted instance that
  supplies the inputs of the path to Fulfill turns its status from aborted to completed.
\<close>

theorem terminal_outcome_counterexample:
  "map ev_event (history (fst (resume demo_aborted ''i1'' ''u3'' Map.empty)) ''i1'') =
     [''created'', ''paused'', ''resume_command'', ''aborted'', ''resume_command'', ''aborted''] \<and>
   map_option m_status (get_meta demo_aborted ''i1'') = Some ''aborted'' \<and>
   map_option m_status
     (get_meta (fst (resume demo_aborted ''i1'' ''u3''
        [''validate'' \<mapsto> VStr ''yes'', ''claim_details'' \<mapsto> VStr ''x'',
         ''process_decision'' \<mapsto> VStr ''suppress'', ''proceed_fulfill'' \<mapsto> VStr ''yes''])) ''i1'')
     = Some ''completed''"
proof -
  from demo_aborted_facts obtain s2 m2 L2 where
    inv: "engine_inv demo_aborted L2"
    and s2: "states demo_aborted ''i1'' = Some s2"
      "bag s2 = [''validate'' \<mapsto> VStr ''no'', ''result'' \<mapsto> VStr ''Workflow aborted.'']"
    and m2: "metas demo_aborted ''i1'' = Some m2" "m_status m2 = ''aborted''"
    and h2: "map ev_event (history demo_aborted ''i1'') =
       [''created'', ''paused'', ''resume_command'', ''aborted'']"
    by (elim exE conjE)
  let ?c = "(clk demo_aborted)\<lparr>tick := Suc (tick (clk demo_aborted))\<rparr>"
  text \<open>the empty resume\<close>
  from route_no[of "s2\<lparr>bag := bag s2 ++ Map.empty\<rparr>" ?c]
  obtain s3 c3 where g3: "graph_invoke (s2\<lparr>bag := bag s2 ++ Map.empty\<rparr>) ?c = (Returned, s3, c3)"
    and s3: "status (meta s3) = Some ''aborted''"
    using s2 by auto
  from resume_step[OF inv s2(1) g3, of "''u3''"]
  obtain e3 ev1 ev2 where
    c3: "resume demo_aborted ''i1'' ''u3'' Map.empty = (e3, Inr (run_summary ''i1'' Returned s3))"
    and e3: "events e3 = (events demo_aborted)(''i1'' \<mapsto> history demo_aborted ''i1'' @ [ev1, ev2])"
      "ev_event ev1 = ''resume_command''" "ev_event ev2 = outcome_kind Returned s3"
    by blast
  have a: "map ev_event (history (fst (resume demo_aborted ''i1'' ''u3'' Map.empty)) ''i1'') =
     [''created'', ''paused'', ''resume_command'', ''aborted'', ''resume_command'', ''aborted'']"
    unfolding c3 using e3 h2 s3 by (simp add: history_def outcome_kind_def)
  text \<open>the resume that supplies the path to Fulfill\<close>
  let ?u = "[''validate'' \<mapsto> VStr ''yes'', ''claim_details'' \<mapsto> VStr ''x'',
         ''process_decision'' \<mapsto> VStr ''suppress'', ''proceed_fulfill'' \<mapsto> VStr ''yes'']"
  from route_fulfill[of "s2\<lparr>bag := bag s2 ++ ?u\<rparr>" ?c]
  obtain s4 c4 where g4: "graph_invoke (s2\<lparr>bag := bag s2 ++ ?u\<rparr>) ?c = (Returned, s4, c4)"
    and s4: "status (meta s4) = Some ''completed''"
    by auto
  from resume_step[OF inv s2(1) g4, of "''u3''"]
  obtain e4 m4 where
    c4: "resume demo_aborted ''i1'' ''u3'' ?u = (e4, Inr (run_summary ''i1'' Returned s4))"
    and e4: "metas e4 = (metas demo_aborted)(''i1'' \<mapsto> m4)"
      "status (meta s4) = Some (m_status m4)"
    by blast
  have b: "map_option m_status (get_meta (fst (resume demo_aborted ''i1'' ''u3'' ?u)) ''i1'')
     = Some ''completed''"
    unfolding c4 using e4 s4 by (simp add: get_meta_def)
  from a b m2 show ?thesis by (simp add: get_meta_def)
qed

text \<open>
  C2 as amended. In every engine reached by \<open>start\<close> and \<open>resume\<close> calls, one call adds
  at most one \<open>completed\<close> or \<open>aborted\<close> event to the log of an instance, and once the
  metadata status of an instance is completed or aborted it is completed or aborted after
  every later sequence of calls. (A later \<open>resume\<close> of such an instance adds a further
  outcome event and may turn one of the two statuses into the other.)
\<close>

theorem terminal_status_stays_terminal:
  assumes "reachable e L"
  shows "(\<forall>e' L' iid. call (e, L) (e', L') \<longrightarrow>
            length (filter terminal_event (history e' iid))
              \<le> Suc (length (filter terminal_event (history e iid)))) \<and>
         (\<forall>e' L' iid m. call\<^sup>*\<^sup>* (e, L) (e', L') \<and> get_meta e iid = Some m \<and>
              (m_status m = ''completed'' \<or> m_status m = ''aborted'') \<longrightarrow>
            (\<exists>m'. get_meta e' iid = Some m' \<and>
               (m_status m' = ''completed'' \<or> m_status m' = ''aborted'')))"
proof (intro conjI allI impI)
  have inv: "engine_inv e L" using assms by (rule reachable_inv)
  {
    fix e' L' iid assume "call (e, L) (e', L')"
    from call_terminal_events[OF inv this]
    show "length (filter terminal_event (history e' iid))
              \<le> Suc (length (filter terminal_event (history e iid)))" .
  }
  {
    fix e' L' iid m
    assume a: "call\<^sup>*\<^sup>* (e, L) (e', L') \<and> get_meta e iid = Some m \<and>
              (m_status m = ''completed'' \<or> m_status m = ''aborted'')"
    then have c: "call\<^sup>*\<^sup>* (e, L) (e', L')" and m: "metas e iid = Some m"
      and t: "m_status m = ''completed'' \<or> m_status m = ''aborted''"
      by (simp_all add: get_meta_def)
    from calls_terminal[OF c inv m t]
    show "\<exists>m'. get_meta e' iid = Some m' \<and>
               (m_status m' = ''completed'' \<or> m_status m' = ''aborted'')"
      by (simp add: get_meta_def)
  }
qed

theorem terminal_status_stays_terminal_witness:
  "\<exists>L e' L' m m'.
     reachable demo_aborted L \<and> call (demo_aborted, L) (e', L') \<and>
     get_meta demo_aborted ''i1'' = Some m \<and> m_status m = ''aborted'' \<and>
     length (filter terminal_event (history e' ''i1''))
       \<le> Suc (length (filter terminal_event (history demo_aborted ''i1''))) \<and>
     get_meta e' ''i1'' = Some m' \<and>
     (m_status m' = ''completed'' \<or> m_status m' = ''aborted'')"
proof -
  from demo_aborted_facts obtain s2 m2 L2 where
    inv: "engine_inv demo_aborted L2" and r: "reachable demo_aborted L2"
    and s2: "states demo_aborted ''i1'' = Some s2"
    and m2: "metas demo_aborted ''i1'' = Some m2" "m_status m2 = ''aborted''"
    by (elim exE conjE)
  obtain r3 s3 c3 where g3: "graph_invoke (s2\<lparr>bag := bag s2 ++ Map.empty\<rparr>)
      ((clk demo_aborted)\<lparr>tick := Suc (tick (clk demo_aborted))\<rparr>) = (r3, s3, c3)"
    by (metis prod_cases3)
  from resume_step[OF inv s2 g3, of "''u3''"]
  obtain e3 where
    c3: "resume demo_aborted ''i1'' ''u3'' Map.empty = (e3, Inr (run_summary ''i1'' r3 s3))"
    by blast
  have c: "call (demo_aborted, L2) (e3, L2(''i1'' \<mapsto> run_summary ''i1'' r3 s3))"
    using call_resume[OF c3] .
  have g: "get_meta demo_aborted ''i1'' = Some m2" using m2 by (simp add: get_meta_def)
  from terminal_status_stays_terminal[OF r] c g m2(2)
  have "length (filter terminal_event (history e3 ''i1''))
       \<le> Suc (length (filter terminal_event (history demo_aborted ''i1'')))"
    and "\<exists>m'. get_meta e3 ''i1'' = Some m' \<and>
               (m_status m' = ''completed'' \<or> m_status m' = ''aborted'')"
    by blast+
  with r c g m2(2) show ?thesis by blast
qed

text \<open>
  C3. For every instance that exists in an engine reached by \<open>start\<close> and \<open>resume\<close>
  calls, \<open>resume\<close> with an empty updates mapping succeeds, leaves the bag and the
  \<open>last_node\<close> of the instance (in its state and in its metadata) as they were, and
  returns the summary that the previous successful call on the instance returned, hence
  the same pause prompt.
\<close>

theorem resume_empty_idempotent:
  assumes "reachable e L" and "get_state e iid = Some st"
  shows "\<exists>e' st' m m' sm.
           resume e iid actor Map.empty = (e', Inr sm) \<and> L iid = Some sm \<and>
           get_state e' iid = Some st' \<and> bag st' = bag st \<and>
           last_node (meta st') = last_node (meta st) \<and>
           get_meta e iid = Some m \<and> get_meta e' iid = Some m' \<and>
           m_last_node m' = m_last_node m"
proof -
  have inv: "engine_inv e L" using assms(1) by (rule reachable_inv)
  have s: "states e iid = Some st" using assms(2) by (simp add: get_state_def)
  have same: "st\<lparr>bag := bag st ++ Map.empty\<rparr> = st" by simp
  obtain r s' c' where g:
    "graph_invoke (st\<lparr>bag := bag st ++ Map.empty\<rparr>) ((clk e)\<lparr>tick := Suc (tick (clk e))\<rparr>)
       = (r, s', c')"
    by (metis prod_cases3)
  from engine_inv_settled[OF inv s g[unfolded same]]
  have k: "bag s' = bag st" "last_node (meta s') = last_node (meta st)"
    "L iid = Some (run_summary iid r s')" by simp_all
  from resume_step[OF inv s g, of actor]
  obtain e' m m' t where e': "resume e iid actor Map.empty = (e', Inr (run_summary iid r s'))"
    "states e' = (states e)(iid \<mapsto> s')" "metas e iid = Some m"
    "m' = projected m actor s' t" "metas e' = (metas e)(iid \<mapsto> m')" by blast
  have "m_last_node m = last_node (meta st)"
    using engine_inv_state[OF inv s] e'(3) by simp
  moreover have "m_last_node m' = last_node (meta s')"
    using e'(4) run_post_last_node[OF graph_invoke_post[OF g]] by simp
  ultimately show ?thesis using k e'
    by (intro exI[of _ e'] exI[of _ s'] exI[of _ m] exI[of _ m']
          exI[of _ "run_summary iid r s'"])
       (simp add: get_state_def get_meta_def)
qed

theorem resume_empty_idempotent_witness:
  "\<exists>e1 e2 st st'.
     start demo_engine ''i1'' ''C1'' ''u1'' =
       (e1, Inr (''i1'', SPaused ''Validate request? (yes/no)'' ''i1'')) \<and>
     reachable e1 [''i1'' \<mapsto> SPaused ''Validate request? (yes/no)'' ''i1''] \<and>
     get_state e1 ''i1'' = Some st \<and>
     resume e1 ''i1'' ''u2'' Map.empty = (e2, Inr (SPaused ''Validate request? (yes/no)'' ''i1'')) \<and>
     get_state e2 ''i1'' = Some st' \<and> bag st' = bag st \<and>
     last_node (meta st') = last_node (meta st) \<and>
     map_option m_last_node (get_meta e2 ''i1'') = map_option m_last_node (get_meta e1 ''i1'')"
proof -
  from start_result[of demo_engine "''i1''" "''C1''" "''u1''"]
  obtain e1 s1 where
    c1: "start demo_engine ''i1'' ''C1'' ''u1'' =
           (e1, Inr (''i1'', SPaused ''Validate request? (yes/no)'' ''i1''))"
    and s1: "states e1 = (states demo_engine)(''i1'' \<mapsto> s1)"
    by blast
  have "call (demo_engine, Map.empty)
          (e1, [''i1'' \<mapsto> SPaused ''Validate request? (yes/no)'' ''i1''])"
    using call_start[OF _ c1, of Map.empty] by (simp add: demo_engine_def)
  then have r1: "reachable e1 [''i1'' \<mapsto> SPaused ''Validate request? (yes/no)'' ''i1'']"
    using reachable_call[OF reachable_new] by (simp add: demo_engine_def)
  have g1: "get_state e1 ''i1'' = Some s1" using s1 by (simp add: get_state_def)
  from resume_empty_idempotent[OF r1 g1, of "''u2''"] c1 r1 g1
  show ?thesis by auto
qed

text \<open>
  C4 (corrected). The claim: for every instance whose bag holds a required guard key
  with an unrecognised value, the call returns a summary with status \<open>in_progress\<close> and
  the metadata status is \<open>in_progress\<close>. For an instance that was aborted before, the
  state still carries the status \<open>aborted\<close>: \<open>resume {validate: "maybe"}\<close> stops at
  Validate Request on the unmatched guard and returns an \<open>aborted\<close> summary, and the
  metadata status is \<open>aborted\<close>.
\<close>

theorem unmatched_guard_counterexample:
  "snd (resume demo_aborted ''i1'' ''u3'' [''validate'' \<mapsto> VStr ''maybe'']) =
     Inr (SAborted ''Validate Request'' (VStr ''Workflow aborted.'') ''i1'') \<and>
   map_option m_status
     (get_meta (fst (resume demo_aborted ''i1'' ''u3'' [''validate'' \<mapsto> VStr ''maybe''])) ''i1'')
     = Some ''aborted'' \<and>
   map_option (\<lambda>s. bag s ''validate'')
     (get_state (fst (resume demo_aborted ''i1'' ''u3'' [''validate'' \<mapsto> VStr ''maybe''])) ''i1'')
     = Some (Some (VStr ''maybe''))"
proof -
  from demo_aborted_facts obtain s2 m2 L2 where
    inv: "engine_inv demo_aborted L2"
    and s2: "states demo_aborted ''i1'' = Some s2"
      "bag s2 = [''validate'' \<mapsto> VStr ''no'', ''result'' \<mapsto> VStr ''Workflow aborted.'']"
      "status (meta s2) = Some ''aborted''"
    by (elim exE conjE)
  let ?c = "(clk demo_aborted)\<lparr>tick := Suc (tick (clk demo_aborted))\<rparr>"
  let ?u = "[''validate'' \<mapsto> VStr ''maybe'']"
  from route_maybe[of "s2\<lparr>bag := bag s2 ++ ?u\<rparr>" ?c]
  obtain s3 c3 where g3: "graph_invoke (s2\<lparr>bag := bag s2 ++ ?u\<rparr>) ?c = (Returned, s3, c3)"
    and s3: "bag s3 = bag s2 ++ ?u" "status (meta s3) = Some ''aborted''"
      "last_node (meta s3) = Some ''Validate Request''"
    using s2 by (auto simp: dflt_status_def)
  from resume_step[OF inv s2(1) g3, of "''u3''"]
  obtain e3 m3 where
    c3: "resume demo_aborted ''i1'' ''u3'' ?u = (e3, Inr (run_summary ''i1'' Returned s3))"
    and e3: "states e3 = (states demo_aborted)(''i1'' \<mapsto> s3)"
      "metas e3 = (metas demo_aborted)(''i1'' \<mapsto> m3)"
      "status (meta s3) = Some (m_status m3)"
    by blast
  have ms: "m_status m3 = ''aborted''" using e3(3) s3(2) by simp
  have sm: "run_summary ''i1'' Returned s3 =
      SAborted ''Validate Request'' (VStr ''Workflow aborted.'') ''i1''"
    using s3 s2(2) by (simp add: run_summary_def bag_result_def)
  have bg: "bag s3 ''validate'' = Some (VStr ''maybe'')" using s3(1) by simp
  show ?thesis unfolding c3 sm using e3(1,2) ms bg
    by (simp add: get_meta_def get_state_def)
qed

text \<open>
  C4 as amended. In an engine reached by \<open>start\<close> and \<open>resume\<close> calls, take an instance
  whose metadata status is \<open>in_progress\<close> (no terminal step has run on it), and a
  \<open>resume\<close> whose traversal comes to one of the five guarded steps with the step's
  required key in the bag and a value that the step's guard does not recognise. The run
  stops there without pausing: the call returns \<open>{status: in_progress, node, instance_id}\<close>
  with that step as node, the last event of the log is a \<open>progressed\<close> event, and the
  metadata status is \<open>in_progress\<close> after the call.
\<close>

theorem unmatched_guard_stalls:
  assumes "reachable e L" and "get_state e iid = Some st0"
    and "get_meta e iid = Some m" and "m_status m = ''in_progress''"
    and "visits (st0\<lparr>bag := bag st0 ++ updates\<rparr>) n" and "\<not> terminal_node n"
    and "(bag st0 ++ updates) (required_key n) \<noteq> None"
    and "edge n Returned (st0\<lparr>bag := bag st0 ++ updates\<rparr>) = None"
  shows "\<exists>e' m' evs ev.
           resume e iid actor updates = (e', Inr (SInProgress (node_name n) iid)) \<and>
           get_meta e' iid = Some m' \<and> m_status m' = ''in_progress'' \<and>
           history e' iid = evs @ [ev] \<and> ev_event ev = ''progressed''"
proof -
  have inv: "engine_inv e L" using assms(1) by (rule reachable_inv)
  have s: "states e iid = Some st0" using assms(2) by (simp add: get_state_def)
  have m: "metas e iid = Some m" using assms(3) by (simp add: get_meta_def)
  let ?st = "st0\<lparr>bag := bag st0 ++ updates\<rparr>"
  have st: "status (meta ?st) = Some ''in_progress''"
    using engine_inv_state[OF inv s] m assms(4) by simp
  from unmatched_stops[OF assms(5,6) _ assms(8), of "(clk e)\<lparr>tick := Suc (tick (clk e))\<rparr>"] assms(7)
  obtain s' c' where g: "graph_invoke ?st ((clk e)\<lparr>tick := Suc (tick (clk e))\<rparr>) = (Returned, s', c')"
    and s': "last_node (meta s') = Some (node_name n)"
      "status (meta s') = Some ''in_progress''"
    using st by (auto simp: dflt_status_def)
  from resume_step[OF inv s g, of actor]
  obtain e' m' ev1 ev2 where
    c: "resume e iid actor updates = (e', Inr (run_summary iid Returned s'))"
    and e': "metas e' = (metas e)(iid \<mapsto> m')" "status (meta s') = Some (m_status m')"
      "events e' = (events e)(iid \<mapsto> history e iid @ [ev1, ev2])"
      "ev_event ev2 = outcome_kind Returned s'"
    by blast
  have sm: "run_summary iid Returned s' = SInProgress (node_name n) iid"
    using s' by (simp add: run_summary_def)
  have k: "outcome_kind Returned s' = ''progressed''"
    using s' by (simp add: outcome_kind_def)
  show ?thesis
    using c e' s' unfolding sm k
    by (intro exI[of _ e'] exI[of _ m'] exI[of _ "history e iid @ [ev1]"] exI[of _ ev2])
       (simp add: get_meta_def history_def)
qed

theorem unmatched_guard_stalls_witness:
  "\<exists>L st0 m e' m' evs ev.
     reachable demo_started L \<and> get_state demo_started ''i1'' = Some st0 \<and>
     get_meta demo_started ''i1'' = Some m \<and> m_status m = ''in_progress'' \<and>
     visits (st0\<lparr>bag := bag st0 ++ [''validate'' \<mapsto> VStr ''maybe'']\<rparr>) Validate_Request \<and>
     \<not> terminal_node Validate_Request \<and>
     (bag st0 ++ [''validate'' \<mapsto> VStr ''maybe'']) (required_key Validate_Request) \<noteq> None \<and>
     edge Validate_Request Returned (st0\<lparr>bag := bag st0 ++ [''validate'' \<mapsto> VStr ''maybe'']\<rparr>)
       = None \<and>
     resume demo_started ''i1'' ''u2'' [''validate'' \<mapsto> VStr ''maybe''] =
       (e', Inr (SInProgress ''Validate Request'' ''i1'')) \<and>
     get_meta e' ''i1'' = Some m' \<and> m_status m' = ''in_progress'' \<and>
     history e' ''i1'' = evs @ [ev] \<and> ev_event ev = ''progressed''"
proof -
  from demo_started_facts obtain s1 L1 where
    inv: "engine_inv demo_started L1" and r: "reachable demo_started L1"
    and s1: "states demo_started ''i1'' = Some s1" "bag s1 = Map.empty"
      "status (meta s1) = Some ''in_progress''"
    by (elim exE conjE)
  from engine_inv_state[OF inv s1(1)] s1(3)
  obtain m1 where m1: "metas demo_started ''i1'' = Some m1" "m_status m1 = ''in_progress''"
    by auto
  let ?u = "[''validate'' \<mapsto> VStr ''maybe'']"
  have h: "get_state demo_started ''i1'' = Some s1" "get_meta demo_started ''i1'' = Some m1"
    "visits (s1\<lparr>bag := bag s1 ++ ?u\<rparr>) Validate_Request"
    "\<not> terminal_node Validate_Request"
    "(bag s1 ++ ?u) (required_key Validate_Request) \<noteq> None"
    "edge Validate_Request Returned (s1\<lparr>bag := bag s1 ++ ?u\<rparr>) = None"
    using s1 m1 by (simp_all add: get_state_def get_meta_def visits_entry terminal_node_def)
  from unmatched_guard_stalls[OF r h(1,2) m1(2) h(3,4,5,6), of "''u2''"]
  obtain e' m' evs ev where
    "resume demo_started ''i1'' ''u2'' ?u = (e', Inr (SInProgress ''Validate Request'' ''i1''))"
    "get_meta e' ''i1'' = Some m'" "m_status m' = ''in_progress''"
    "history e' ''i1'' = evs @ [ev]" "ev_event ev = ''progressed''"
    by auto
  with r h m1(2) show ?thesis
    by (intro exI[of _ L1] exI[of _ s1] exI[of _ m1] exI[of _ e'] exI[of _ m'] exI[of _ evs]
          exI[of _ ev]) simp
qed

text \<open>
  C5. For an instance id with no persisted execution state, \<open>resume\<close> fails with
  NotFound and returns the engine as it was: the four namespaces of the store (and the
  clock) are unchanged.
\<close>

theorem resume_unknown_not_found:
  "get_state e iid = None \<Longrightarrow> resume e iid actor updates = (e, Inl (NotFound iid))"
  by (simp add: get_state_def resume_None)

theorem resume_unknown_not_found_witness:
  "get_state demo_engine ''unknown-id'' = None \<and>
   resume demo_engine ''unknown-id'' ''u'' Map.empty = (demo_engine, Inl (NotFound ''unknown-id''))"
proof -
  have h: "get_state demo_engine ''unknown-id'' = None"
    by (simp add: get_state_def demo_engine_def new_engine_def)
  show ?thesis using h resume_unknown_not_found[OF h] by simp
qed

text \<open>
  C6 (corrected). The claim: whenever Gather Claim Info returns without pausing, that is
  whenever \<open>claim_details\<close> is in the bag with any value, the guard selects Identify
  Accounts. The guard applies Python's truth test to the value, so an empty string
  passes the step and then selects END.
\<close>

theorem gather_guard_counterexample:
  "fst (gather_claim_info (demo_state [''claim_details'' \<mapsto> VStr '''']) demo_clock) = Returned \<and>
   edge Gather_Claim_Info Returned
     (fst (snd (gather_claim_info (demo_state [''claim_details'' \<mapsto> VStr '''']) demo_clock)))
     = None"
  by (simp add: gather_claim_info_def ensure_defaults_def set_last_node_def now_iso_def
        demo_state_def Let_def)

text \<open>
  C6 as amended. Whenever Gather Claim Info returns without pausing, \<open>claim_details\<close> is
  in the bag, and the guard selects Identify Accounts if its value passes Python's truth
  test and END if it does not (None, False, 0, the empty string, list or dict).
\<close>

theorem gather_guard_truthy:
  "gather_claim_info s c = (Returned, s', c') \<Longrightarrow>
   \<exists>v. bag s ''claim_details'' = Some v \<and>
       edge Gather_Claim_Info Returned s' =
         (if truthy v then Some Identify_Accounts else None)"
  by (auto simp: gather_claim_info_def ensure_defaults_def set_last_node_def now_iso_def
        Let_def split: if_splits)

theorem gather_guard_truthy_witness:
  "gather_claim_info (demo_state [''claim_details'' \<mapsto> VStr ''x'']) demo_clock =
     (Returned, fst (snd (gather_claim_info (demo_state [''claim_details'' \<mapsto> VStr ''x'']) demo_clock)),
      snd (snd (gather_claim_info (demo_state [''claim_details'' \<mapsto> VStr ''x'']) demo_clock))) \<and>
   (\<exists>v. bag (demo_state [''claim_details'' \<mapsto> VStr ''x'']) ''claim_details'' = Some v \<and>
       edge Gather_Claim_Info Returned
         (fst (snd (gather_claim_info (demo_state [''claim_details'' \<mapsto> VStr ''x'']) demo_clock))) =
         (if truthy v then Some Identify_Accounts else None))"
proof -
  have h: "gather_claim_info (demo_state [''claim_details'' \<mapsto> VStr ''x'']) demo_clock =
     (Returned, fst (snd (gather_claim_info (demo_state [''claim_details'' \<mapsto> VStr ''x'']) demo_clock)),
      snd (snd (gather_claim_info (demo_state [''claim_details'' \<mapsto> VStr ''x'']) demo_clock)))"
    by (simp add: gather_claim_info_def ensure_defaults_def set_last_node_def now_iso_def
        demo_state_def Let_def)
  show ?thesis using h gather_guard_truthy[OF h] by blast
qed

text \<open>
  C7. The cancel scenario, on any engine and for any fresh identifier \<open>iid\<close> that
  \<open>start\<close> draws: \<open>start("C1", "u1")\<close> returns paused with the prompt
  "Validate request? (yes/no)"; \<open>resume\<close> with \<open>{validate: "yes"}\<close> returns paused with
  "Provide claim details"; \<open>resume\<close> with \<open>{claim_details: "x"}\<close> returns paused with
  "Decision? cancel / hold / suppress"; \<open>resume\<close> with \<open>{process_decision: "cancel"}\<close>
  returns status aborted, node "Cancel CWD Request" and result "Workflow aborted.".
\<close>

theorem cancel_scenario:
  "\<exists>e1 e2 e3 e4.
     start e iid ''C1'' ''u1'' = (e1, Inr (iid, SPaused ''Validate request? (yes/no)'' iid)) \<and>
     resume e1 iid ''u2'' [''validate'' \<mapsto> VStr ''yes''] =
       (e2, Inr (SPaused ''Provide claim details'' iid)) \<and>
     resume e2 iid ''u3'' [''claim_details'' \<mapsto> VStr ''x''] =
       (e3, Inr (SPaused ''Decision? cancel / hold / suppress'' iid)) \<and>
     resume e3 iid ''u4'' [''process_decision'' \<mapsto> VStr ''cancel''] =
       (e4, Inr (SAborted ''Cancel CWD Request'' (VStr ''Workflow aborted.'') iid))"
proof -
  from start_result[of e iid "''C1''" "''u1''"]
  obtain e1 s1 m1 where
    c1: "start e iid ''C1'' ''u1'' = (e1, Inr (iid, SPaused ''Validate request? (yes/no)'' iid))"
    and s1: "states e1 = (states e)(iid \<mapsto> s1)" "bag s1 = Map.empty"
      "status (meta s1) = Some ''in_progress''"
    and m1: "metas e1 = (metas e)(iid \<mapsto> m1)"
    by blast
  let ?c1 = "(clk e1)\<lparr>tick := Suc (tick (clk e1))\<rparr>"
  let ?st2 = "s1\<lparr>bag := bag s1 ++ [''validate'' \<mapsto> VStr ''yes'']\<rparr>"
  from route_gather[of ?st2 ?c1]
  obtain s2 c2 where g2: "graph_invoke ?st2 ?c1 = (Interrupt ''Provide claim details'', s2, c2)"
    and s2: "bag s2 = [''validate'' \<mapsto> VStr ''yes'']" "status (meta s2) = Some ''in_progress''"
    using s1 by (auto simp: dflt_status_def)
  from resume_summary[OF _ _ g2, where iid = iid and actor = "''u2''"]
  obtain e2 where
    c2: "resume e1 iid ''u2'' [''validate'' \<mapsto> VStr ''yes''] =
           (e2, Inr (SPaused ''Provide claim details'' iid))"
    and e2: "states e2 iid = Some s2" "metas e2 iid \<noteq> None"
    using s1 m1 by (auto simp: run_summary_def)
  let ?c2 = "(clk e2)\<lparr>tick := Suc (tick (clk e2))\<rparr>"
  let ?st3 = "s2\<lparr>bag := bag s2 ++ [''claim_details'' \<mapsto> VStr ''x'']\<rparr>"
  from route_identify[of ?st3 ?c2]
  obtain s3 c3 where
    g3: "graph_invoke ?st3 ?c2 = (Interrupt ''Decision? cancel / hold / suppress'', s3, c3)"
    and s3: "bag s3 = [''validate'' \<mapsto> VStr ''yes'', ''claim_details'' \<mapsto> VStr ''x'']"
      "status (meta s3) = Some ''in_progress''"
    using s2 by (auto simp: dflt_status_def)
  from resume_summary[OF e2 g3, where actor = "''u3''"]
  obtain e3 where
    c3: "resume e2 iid ''u3'' [''claim_details'' \<mapsto> VStr ''x''] =
           (e3, Inr (SPaused ''Decision? cancel / hold / suppress'' iid))"
    and e3: "states e3 iid = Some s3" "metas e3 iid \<noteq> None"
    by (auto simp: run_summary_def)
  let ?c3 = "(clk e3)\<lparr>tick := Suc (tick (clk e3))\<rparr>"
  let ?st4 = "s3\<lparr>bag := bag s3 ++ [''process_decision'' \<mapsto> VStr ''cancel'']\<rparr>"
  from route_cancel[of ?st4 ?c3]
  obtain s4 c4 where g4: "graph_invoke ?st4 ?c3 = (Returned, s4, c4)"
    and s4: "bag s4 ''result'' = Some (VStr ''Workflow aborted.'')"
      "status (meta s4) = Some ''aborted''" "last_node (meta s4) = Some ''Cancel CWD Request''"
    using s3 by auto
  from resume_summary[OF e3 g4, where actor = "''u4''"]
  obtain e4 where
    c4: "resume e3 iid ''u4'' [''process_decision'' \<mapsto> VStr ''cancel''] =
           (e4, Inr (SAborted ''Cancel CWD Request'' (VStr ''Workflow aborted.'') iid))"
    using s4 by (auto simp: run_summary_def bag_result_def)
  from c1 c2 c3 c4 show ?thesis by blast
qed

text \<open>
  C8. In every engine reached by \<open>start\<close> and \<open>resume\<close> calls, the \<open>steps_history\<close> of
  every instance has no two consecutive entries with the same node; whatever calls follow,
  the history the instance has then is the history it has now with entries appended; and
  the projection that writes the history (\<open>_update_meta_from_state\<close>, for any actor and
  state) returns the history with entries appended and again no two consecutive entries
  with the same node.
\<close>

theorem steps_history_append_only:
  assumes "reachable e L" and "get_meta e iid = Some m"
  shows "distinct_adj (map h_node (steps_history m)) \<and>
         (\<forall>e' L'. call\<^sup>*\<^sup>* (e, L) (e', L') \<longrightarrow>
            (\<exists>m' ys. get_meta e' iid = Some m' \<and>
               steps_history m' = steps_history m @ ys \<and>
               distinct_adj (map h_node (steps_history m')))) \<and>
         (\<forall>actor s. \<exists>e2 m2 ys. update_meta_from_state e iid actor s = Inr (e2, m2) \<and>
               steps_history m2 = steps_history m @ ys \<and>
               distinct_adj (map h_node (steps_history m2)))"
proof (intro conjI allI impI)
  have inv: "engine_inv e L" using assms(1) by (rule reachable_inv)
  have m: "metas e iid = Some m" using assms(2) by (simp add: get_meta_def)
  show d: "distinct_adj (map h_node (steps_history m))"
    using engine_inv_meta[OF inv m] by simp
  {
    fix e' L' assume c: "call\<^sup>*\<^sup>* (e, L) (e', L')"
    from calls_history_extends[OF c inv m]
    obtain m' ys where m': "metas e' iid = Some m'" "steps_history m' = steps_history m @ ys"
      by blast
    have "engine_inv e' L'" using engine_inv_calls[OF c inv] .
    from engine_inv_meta[OF this m'(1)] m'
    show "\<exists>m' ys. get_meta e' iid = Some m' \<and>
               steps_history m' = steps_history m @ ys \<and>
               distinct_adj (map h_node (steps_history m'))"
      by (auto simp: get_meta_def)
  }
  {
    fix actor s
    show "\<exists>e2 m2 ys. update_meta_from_state e iid actor s = Inr (e2, m2) \<and>
               steps_history m2 = steps_history m @ ys \<and>
               distinct_adj (map h_node (steps_history m2))"
      using update_meta_from_state_projected[OF m, of actor s]
        distinct_adj_projected[OF d, of actor s "readings (clk e) (tick (clk e))"]
      by simp
  }
qed

theorem steps_history_append_only_witness:
  "\<exists>e1 e2 m1 m2 ys L1 L2.
     reachable e1 L1 \<and> get_meta e1 ''i1'' = Some m1 \<and> steps_history m1 \<noteq> [] \<and>
     call\<^sup>*\<^sup>* (e1, L1) (e2, L2) \<and>
     distinct_adj (map h_node (steps_history m1)) \<and>
     get_meta e2 ''i1'' = Some m2 \<and> steps_history m2 = steps_history m1 @ ys \<and>
     distinct_adj (map h_node (steps_history m2))"
proof -
  from start_result[of demo_engine "''i1''" "''C1''" "''u1''"]
  obtain e1 s1 m1 t where
    c1: "start demo_engine ''i1'' ''C1'' ''u1'' =
           (e1, Inr (''i1'', SPaused ''Validate request? (yes/no)'' ''i1''))"
    and s1: "states e1 = (states demo_engine)(''i1'' \<mapsto> s1)"
    and m1: "metas e1 = (metas demo_engine)(''i1'' \<mapsto> m1)"
      "steps_history m1 = [\<lparr>h_ts = t, h_node = ''Validate Request'', h_actor = ''u1'',
                           h_status = ''in_progress''\<rparr>]"
    by blast
  let ?L1 = "[''i1'' \<mapsto> SPaused ''Validate request? (yes/no)'' ''i1'']"
  have "call (demo_engine, Map.empty) (e1, ?L1)"
    using call_start[OF _ c1, of Map.empty] by (simp add: demo_engine_def)
  then have r1: "reachable e1 ?L1"
    using reachable_call[OF reachable_new] by (simp add: demo_engine_def)
  have inv1: "engine_inv e1 ?L1" using r1 by (rule reachable_inv)
  have g1: "get_meta e1 ''i1'' = Some m1" using m1 by (simp add: get_meta_def)
  obtain r s' c' where g:
    "graph_invoke (s1\<lparr>bag := bag s1 ++ [''validate'' \<mapsto> VStr ''yes'']\<rparr>)
       ((clk e1)\<lparr>tick := Suc (tick (clk e1))\<rparr>) = (r, s', c')"
    by (metis prod_cases3)
  from resume_step[OF inv1 _ g, of "''i1''" "''u2''"] s1
  obtain e2 where c2: "resume e1 ''i1'' ''u2'' [''validate'' \<mapsto> VStr ''yes''] =
      (e2, Inr (run_summary ''i1'' r s'))"
    by auto
  have k: "call\<^sup>*\<^sup>* (e1, ?L1) (e2, ?L1(''i1'' \<mapsto> run_summary ''i1'' r s'))"
    using call_resume[OF c2, of ?L1] by blast
  from steps_history_append_only[OF r1 g1] k
  obtain m2 ys where "distinct_adj (map h_node (steps_history m1))"
    "get_meta e2 ''i1'' = Some m2" "steps_history m2 = steps_history m1 @ ys"
    "distinct_adj (map h_node (steps_history m2))"
    by blast
  moreover have "steps_history m1 \<noteq> []" using m1(2) by simp
  ultimately show ?thesis using r1 g1 k by blast
qed

text \<open>
  C9 (corrected). The claim: \<open>list_instances\<close> applies every supplied filter as an
  exact match. A filter that is supplied as the empty string is not applied: listing
  with \<open>customer_id = ""\<close> returns the instance of customer \<open>C1\<close>.
\<close>

theorem list_instances_counterexample:
  "map m_customer_id
     (list_instances (fst (start demo_engine ''i1'' ''C1'' ''u1'')) (Some '''') None None None)
   = [''C1'']"
proof -
  from start_result[of demo_engine "''i1''" "''C1''" "''u1''"]
  obtain e1 m1 where
    c1: "start demo_engine ''i1'' ''C1'' ''u1'' =
           (e1, Inr (''i1'', SPaused ''Validate request? (yes/no)'' ''i1''))"
    and m1: "metas e1 = (metas demo_engine)(''i1'' \<mapsto> m1)" "m_customer_id m1 = ''C1''"
    and i1: "instances e1 = instances (add_to_index demo_engine ''i1'')"
    by blast
  have "instances e1 = Some [''i1'']"
    unfolding i1 by (simp add: demo_engine_def new_engine_def)
  then show ?thesis using m1 unfolding c1
    by (simp add: list_instances_def sort_reverse_def get_meta_def keeps_def)
qed

text \<open>
  C9 as amended. \<open>list_instances\<close> returns the metadata of the indexed instances that
  match every filter that is supplied and not the empty string (a filter that is None or
  the empty string is not applied), each as often as its id is indexed; the result is
  sorted descending by the timestamp of the last \<open>steps_history\<close> entry, with the empty
  string as the key of an instance with no entry, and instances of equal key keep their
  index order; so an instance with no entry is followed only by instances with no entry
  or with an empty last timestamp.
\<close>

theorem list_instances_filtered_sorted:
  fixes e cust st started_by wname
  defines "r \<equiv> list_instances e cust st started_by wname"
  defines "ms \<equiv> List.map_filter (metas e) (case instances e of None \<Rightarrow> [] | Some l \<Rightarrow> l)"
  shows "mset r =
           mset (filter (\<lambda>m. (truthy_str wname \<longrightarrow> Some (m_workflow_name m) = wname) \<and>
                              (truthy_str cust \<longrightarrow> Some (m_customer_id m) = cust) \<and>
                              (truthy_str st \<longrightarrow> Some (m_status m) = st) \<and>
                              (truthy_str started_by \<longrightarrow> Some (m_started_by m) = started_by))
                   ms) \<and>
         sorted (rev (map sort_ts r)) \<and>
         (\<forall>k. filter (\<lambda>m. sort_ts m = k) r =
              filter (\<lambda>m. sort_ts m = k) (filter (keeps cust st started_by wname) ms)) \<and>
         (\<forall>i j. i < j \<and> j < length r \<and> steps_history (r ! i) = [] \<longrightarrow>
              steps_history (r ! j) = [] \<or> h_ts (last (steps_history (r ! j))) = [])"
proof (intro conjI)
  have r: "r = sort_reverse sort_ts (filter (keeps cust st started_by wname) ms)"
    by (simp add: r_def ms_def list_instances_def collect_filter)
  have k: "keeps cust st started_by wname =
        (\<lambda>m. (truthy_str wname \<longrightarrow> Some (m_workflow_name m) = wname) \<and>
              (truthy_str cust \<longrightarrow> Some (m_customer_id m) = cust) \<and>
              (truthy_str st \<longrightarrow> Some (m_status m) = st) \<and>
              (truthy_str started_by \<longrightarrow> Some (m_started_by m) = started_by))"
    by (auto simp: keeps_def fun_eq_iff)
  show "mset r = mset (filter (\<lambda>m. (truthy_str wname \<longrightarrow> Some (m_workflow_name m) = wname) \<and>
                              (truthy_str cust \<longrightarrow> Some (m_customer_id m) = cust) \<and>
                              (truthy_str st \<longrightarrow> Some (m_status m) = st) \<and>
                              (truthy_str started_by \<longrightarrow> Some (m_started_by m) = started_by)) ms)"
    unfolding r k[symmetric] by simp
  show srt: "sorted (rev (map sort_ts r))" unfolding r by (rule sorted_sort_reverse)
  show "\<forall>k. filter (\<lambda>m. sort_ts m = k) r =
           filter (\<lambda>m. sort_ts m = k) (filter (keeps cust st started_by wname) ms)"
    unfolding r by (simp add: sort_reverse_stable)
  show "\<forall>i j. i < j \<and> j < length r \<and> steps_history (r ! i) = [] \<longrightarrow>
           steps_history (r ! j) = [] \<or> h_ts (last (steps_history (r ! j))) = []"
  proof (intro allI impI)
    fix i j assume a: "i < j \<and> j < length r \<and> steps_history (r ! i) = []"
    then have "map sort_ts r ! j \<le> map sort_ts r ! i"
      using srt[unfolded sorted_rev_iff_nth_mono] by simp
    with a have "sort_ts (r ! j) \<le> sort_ts (r ! i)" by simp
    moreover have "sort_ts (r ! i) = []" using a by (simp add: sort_ts_def)
    ultimately have "sort_ts (r ! j) = []" by simp
    then show "steps_history (r ! j) = [] \<or> h_ts (last (steps_history (r ! j))) = []"
      by (simp add: sort_ts_empty)
  qed
qed

theorem list_instances_filtered_sorted_witness:
  "truthy_str (Some ''C1'') \<and>
   map m_customer_id
     (list_instances (fst (start demo_engine ''i1'' ''C1'' ''u1'')) (Some ''C1'') None None None)
     = [''C1''] \<and>
   list_instances (fst (start demo_engine ''i1'' ''C1'' ''u1'')) (Some ''C2'') None None None = []"
proof -
  from start_result[of demo_engine "''i1''" "''C1''" "''u1''"]
  obtain e1 m1 where
    c1: "start demo_engine ''i1'' ''C1'' ''u1'' =
           (e1, Inr (''i1'', SPaused ''Validate request? (yes/no)'' ''i1''))"
    and m1: "metas e1 = (metas demo_engine)(''i1'' \<mapsto> m1)" "m_customer_id m1 = ''C1''"
    and i1: "instances e1 = instances (add_to_index demo_engine ''i1'')"
    by blast
  have i: "instances e1 = Some [''i1'']"
    unfolding i1 by (simp add: demo_engine_def new_engine_def)
  have ms: "List.map_filter (metas e1) (case instances e1 of None \<Rightarrow> [] | Some l \<Rightarrow> l) = [m1]"
    using m1 i by (simp add: List.map_filter_def)
  have a: "mset (list_instances e1 (Some ''C1'') None None None) = {#m1#}"
    using list_instances_filtered_sorted[of e1 "Some ''C1''" None None None] m1
    unfolding ms by simp
  have b: "mset (list_instances e1 (Some ''C2'') None None None) = {#}"
    using list_instances_filtered_sorted[of e1 "Some ''C2''" None None None] m1
    unfolding ms by simp
  from a have "list_instances e1 (Some ''C1'') None None None = [m1]" by simp
  with b m1 show ?thesis unfolding c1 by simp
qed

text \<open>
  C10. Every \<open>start\<close> call and every successful \<open>resume\<close> call appends exactly two
  events to the log of its instance and leaves every other log as it was: \<open>start\<close>
  appends a \<open>created\<close> event and then one outcome event, \<open>resume\<close> a
  \<open>resume_command\<close> event and then one outcome event; an outcome event is one of
  \<open>paused\<close>, \<open>progressed\<close>, \<open>completed\<close>, \<open>aborted\<close>. (\<open>start\<close> always succeeds.)
\<close>

theorem call_appends_two_events:
  "(\<exists>e' sm ev1 ev2.
      start e iid cust started_by = (e', Inr (iid, sm)) \<and>
      events e' = (events e)(iid \<mapsto> history e iid @ [ev1, ev2]) \<and>
      ev_event ev1 = ''created'' \<and>
      ev_event ev2 \<in> {''paused'', ''progressed'', ''completed'', ''aborted''}) \<and>
   (\<forall>e' sm. resume e iid actor updates = (e', Inr sm) \<longrightarrow>
      (\<exists>ev1 ev2.
         events e' = (events e)(iid \<mapsto> history e iid @ [ev1, ev2]) \<and>
         ev_event ev1 = ''resume_command'' \<and>
         ev_event ev2 \<in> {''paused'', ''progressed'', ''completed'', ''aborted''}))"
proof (intro conjI allI impI)
  from start_result[of e iid cust started_by]
  obtain e' ev1 ev2 where
    "start e iid cust started_by = (e', Inr (iid, SPaused ''Validate request? (yes/no)'' iid))"
    "events e' = (events e)(iid \<mapsto> history e iid @ [ev1, ev2])"
    "ev_event ev1 = ''created''" "ev_event ev2 = ''paused''"
    by blast
  then show "\<exists>e' sm ev1 ev2.
      start e iid cust started_by = (e', Inr (iid, sm)) \<and>
      events e' = (events e)(iid \<mapsto> history e iid @ [ev1, ev2]) \<and>
      ev_event ev1 = ''created'' \<and>
      ev_event ev2 \<in> {''paused'', ''progressed'', ''completed'', ''aborted''}"
    by (intro exI[of _ e'] exI[of _ "SPaused ''Validate request? (yes/no)'' iid"]
          exI[of _ ev1] exI[of _ ev2]) simp
next
  fix e' sm
  assume ok: "resume e iid actor updates = (e', Inr sm)"
  then obtain st0 m where s: "states e iid = Some st0" and m: "metas e iid = Some m"
    using resume_Inr_has_state_and_meta by blast
  obtain r s' c' where g:
    "graph_invoke (st0\<lparr>bag := bag st0 ++ updates\<rparr>) ((clk e)\<lparr>tick := Suc (tick (clk e))\<rparr>)
       = (r, s', c')"
    by (metis prod_cases3)
  from resume_result[OF s m g, of actor] ok
  obtain ev1 ev2 where "events e' = (events e)(iid \<mapsto> history e iid @ [ev1, ev2])"
    "ev_event ev1 = ''resume_command''" "ev_event ev2 = outcome_kind r s'"
    by auto
  then show "\<exists>ev1 ev2.
         events e' = (events e)(iid \<mapsto> history e iid @ [ev1, ev2]) \<and>
         ev_event ev1 = ''resume_command'' \<and>
         ev_event ev2 \<in> {''paused'', ''progressed'', ''completed'', ''aborted''}"
    using outcome_kind_cases[of r s'] by (intro exI[of _ ev1] exI[of _ ev2]) simp
qed

theorem call_appends_two_events_witness:
  "\<exists>e1 e2 sm ev1 ev2.
     start demo_engine ''i1'' ''C1'' ''user_a'' =
       (e1, Inr (''i1'', SPaused ''Validate request? (yes/no)'' ''i1'')) \<and>
     resume e1 ''i1'' ''user_b'' [''validate'' \<mapsto> VStr ''yes''] = (e2, Inr sm) \<and>
     events e2 = (events e1)(''i1'' \<mapsto> history e1 ''i1'' @ [ev1, ev2]) \<and>
     ev_event ev1 = ''resume_command'' \<and>
     ev_event ev2 \<in> {''paused'', ''progressed'', ''completed'', ''aborted''}"
proof -
  from start_result[of demo_engine "''i1''" "''C1''" "''user_a''"]
  obtain e1 s1 m1 where
    c1: "start demo_engine ''i1'' ''C1'' ''user_a'' =
           (e1, Inr (''i1'', SPaused ''Validate request? (yes/no)'' ''i1''))"
    and s1: "states e1 = (states demo_engine)(''i1'' \<mapsto> s1)"
    and m1: "metas e1 = (metas demo_engine)(''i1'' \<mapsto> m1)"
    by blast
  obtain r s' c' where g:
    "graph_invoke (s1\<lparr>bag := bag s1 ++ [''validate'' \<mapsto> VStr ''yes'']\<rparr>)
       ((clk e1)\<lparr>tick := Suc (tick (clk e1))\<rparr>) = (r, s', c')"
    by (metis prod_cases3)
  from resume_summary[OF _ _ g, where iid = "''i1''" and actor = "''user_b''"]
  obtain e2 where c2: "resume e1 ''i1'' ''user_b'' [''validate'' \<mapsto> VStr ''yes''] =
      (e2, Inr (run_summary ''i1'' r s'))"
    using s1 m1 by auto
  from call_appends_two_events[of e1 "''i1''" _ _ "''user_b''" "[''validate'' \<mapsto> VStr ''yes'']"] c2
  obtain ev1 ev2 where
    "events e2 = (events e1)(''i1'' \<mapsto> history e1 ''i1'' @ [ev1, ev2])"
    "ev_event ev1 = ''resume_command''"
    "ev_event ev2 \<in> {''paused'', ''progressed'', ''completed'', ''aborted''}"
    by blast
  with c1 c2 show ?thesis by blast
qed

end
